theory Spec2Isabelle
  imports Complex_Main "HOL-Library.Word"
begin

unbundle bit_operations_syntax

section \<open>The route preview of the landing page\<close>

text \<open>
  The ride model of \<^verbatim>\<open>frontend/src/pages/landing_old.jsx\<close>: the seeded generator
  \<^verbatim>\<open>mulberry32\<close>, the smoothed noise of \<^verbatim>\<open>noiseSeries\<close> and
  \<^verbatim>\<open>makeRoutePreview\<close>, which builds a distance series, an elevation series, the
  grade of every sample and the speed a power balance gives at that grade.

  JavaScript numbers are modelled as reals and their arithmetic as exact, with two
  refinements. The generator is modelled to the bit: the addition to its captured
  variable is rounded to the nearest double, and its 32-bit operations
  (\<^verbatim>\<open>Math.imul\<close>, \<^verbatim>\<open>^\<close>, \<^verbatim>\<open>|\<close>, \<^verbatim>\<open>>>>\<close>) work on \<^typ>\<open>32 word\<close>. The
  callback that computes the speed of a sample is given a second time over numbers with
  infinities and NaN, where overflow is modelled.
\<close>

subsection \<open>mulberry32\<close>

text \<open>
  The sum of two doubles is the double nearest to the exact sum, ties going to the even
  significand: \<open>toDouble\<close> rounds a real to 53 significant bits. Subnormal numbers and
  overflow are not modelled; neither arises in the generator, whose state grows by
  \<open>0x6d2b79f5\<close> at each call from a seed that is a finite double.
\<close>

definition roundEven :: "real \<Rightarrow> int" where
  "roundEven q =
     (let f = \<lfloor>q\<rfloor>; d = q - of_int f
      in if d < 1 / 2 then f else if 1 / 2 < d then f + 1 else if even f then f else f + 1)"

definition toDouble :: "real \<Rightarrow> real" where
  "toDouble x =
     (if x = 0 then 0
      else let e = \<lfloor>log 2 \<bar>x\<bar>\<rfloor> - 52;
               ulp = (if 0 \<le> e then 2 ^ nat e else 1 / 2 ^ nat (- e))
           in of_int (roundEven (x / ulp)) * ulp)"

text \<open>
  The 32-bit operators read a number through \<^verbatim>\<open>ToInt32\<close> or \<^verbatim>\<open>ToUint32\<close>: the
  number is truncated towards zero and taken modulo \<open>2 ^ 32\<close>.
\<close>

definition toInt32 :: "real \<Rightarrow> 32 word" where
  "toInt32 x = word_of_int (if 0 \<le> x then \<lfloor>x\<rfloor> else - \<lfloor>- x\<rfloor>)"

text \<open>The three lines that mix the bits of \<^verbatim>\<open>t\<close>.\<close>

definition scramble :: "32 word \<Rightarrow> 32 word" where
  "scramble t0 =
     (let t1 = (t0 XOR drop_bit 15 t0) * (t0 OR 1);
          t2 = t1 XOR (t1 + (t1 XOR drop_bit 7 t1) * (t1 OR 61))
      in t2 XOR drop_bit 14 t2)"

text \<open>
  \<^verbatim>\<open>mulberry32(seed)\<close> returns a closure over its own copy of \<^verbatim>\<open>seed\<close>. The
  model passes that captured variable explicitly: a call of the closure takes the
  captured value and returns the number drawn together with the new captured value.
  \<^verbatim>\<open>seed += 0x6d2b79f5\<close> is an addition of doubles, which does not wrap but rounds
  once the sum needs more than 53 bits.
\<close>

definition mulberry32 :: "real \<Rightarrow> real \<times> real" where
  "mulberry32 seed =
     (let seed' = toDouble (seed + 0x6d2b79f5)
      in (real (unat (scramble (toInt32 seed'))) / 4294967296, seed'))"

subsection \<open>noiseSeries\<close>

text \<open>
  \<^verbatim>\<open>Array.from({ length: n }, () => r() * 2 - 1)\<close>: \<open>n\<close> draws in index order.
\<close>

fun draws :: "nat \<Rightarrow> real \<Rightarrow> real list \<times> real" where
  "draws 0 r = ([], r)"
| "draws (Suc n) r =
     (let (u, r1) = mulberry32 r;
          (xs, r2) = draws n r1
      in ((u * 2 - 1) # xs, r2))"

text \<open>
  The window of half-width \<open>w = max 1 (s | 0)\<close> around \<open>i\<close>, with indices clamped to
  \<open>0 .. n - 1\<close>; the sum \<open>S\<close> and the count \<open>c\<close> are accumulated together as in the source.
\<close>

definition noiseWindow :: "real list \<Rightarrow> nat \<Rightarrow> int \<Rightarrow> nat \<Rightarrow> real" where
  "noiseWindow a n w i =
     (let (S, c) = foldl (\<lambda>(S, c) k.
                      let j = min (int n - 1) (max 0 (int i + k))
                      in (S + a ! nat j, c + 1))
                    (0, 0 :: real) [- w..w]
      in S / c)"

definition noiseSeries :: "nat \<Rightarrow> real \<Rightarrow> int \<Rightarrow> real list \<times> real" where
  "noiseSeries n r s =
     (let (a, r') = draws n r;
          w = max 1 (sint (word_of_int s :: 32 word));
          o_arr = map (noiseWindow a n w) [0..<n]
      in (o_arr, r'))"

subsection \<open>Grades\<close>

text \<open>
  The two grade loops of \<^verbatim>\<open>makeRoutePreview\<close>, with the number of samples \<open>n\<close>
  (\<^verbatim>\<open>pts\<close> in the source) as a parameter. The array starts as \<open>n\<close> zeros; the first
  loop writes the raw grade of the pair \<open>(i - 1, i)\<close> at index \<open>i\<close>, the second
  overwrites the same array at the indices \<open>2 .. n - 3\<close>.
\<close>

definition rawGradeAt :: "real list \<Rightarrow> real list \<Rightarrow> nat \<Rightarrow> real" where
  "rawGradeAt elev_ft miles i =
     (let de = elev_ft ! i - elev_ft ! (i - 1);
          dx = miles ! i - miles ! (i - 1)
      in if dx > 0 then (de / 5280 / dx) * 100 else 0)"

definition rawGrade :: "real list \<Rightarrow> real list \<Rightarrow> nat \<Rightarrow> real list" where
  "rawGrade elev_ft miles n =
     foldl (\<lambda>grade i. grade[i := rawGradeAt elev_ft miles i]) (replicate n 0) [1..<n]"

definition smoothAt :: "real list \<Rightarrow> nat \<Rightarrow> real list" where
  "smoothAt grade i =
     grade[i := (grade ! (i - 2) + grade ! (i - 1) + grade ! i
                 + grade ! (i + 1) + grade ! (i + 2)) / 5]"

definition smoothGrade :: "real list \<Rightarrow> nat \<Rightarrow> real list" where
  "smoothGrade grade n = foldl smoothAt grade [2..<n - 2]"

subsection \<open>The speed at one sample\<close>

definition flat_mph :: real where "flat_mph = 18.5"
definition CdA :: real where "CdA = 0.3"
definition Crr :: real where "Crr = 0.004"
definition mass :: real where "mass = 62"
definition rho :: real where "rho = 1.225"
definition grav_g :: real where "grav_g = 9.80665"

definition theta :: "real \<Rightarrow> real" where
  "theta gp = arctan (gp / 100)"

definition grav :: "real \<Rightarrow> real" where
  "grav gp = mass * grav_g * sin (theta gp)"

definition roll :: "real \<Rightarrow> real" where
  "roll gp = mass * grav_g * Crr * cos (theta gp)"

definition v_flat :: real where
  "v_flat = flat_mph * 0.44704"

definition power_P :: real where
  "power_P = v_flat * (mass * grav_g * Crr + 0.5 * rho * CdA * v_flat * v_flat)"

definition seed_v :: "real \<Rightarrow> real" where
  "seed_v gp = max 2 (v_flat + (if gp < 0 then \<bar>gp\<bar> * 0.3 else - gp * 0.25))"

definition aero :: "real \<Rightarrow> real" where
  "aero v = 0.5 * rho * CdA * v * v"

definition f_bal :: "real \<Rightarrow> real \<Rightarrow> real" where
  "f_bal gp v = v * (grav gp + roll gp + aero v) - power_P"

definition df_bal :: "real \<Rightarrow> real \<Rightarrow> real" where
  "df_bal gp v = grav gp + roll gp + 1.5 * aero v"

definition newtonStep :: "real \<Rightarrow> real \<Rightarrow> real" where
  "newtonStep gp v = max 1 (v - 0.6 * (f_bal gp v / max (1 / 1000000) (df_bal gp v)))"

fun newtonLoop :: "nat \<Rightarrow> real \<Rightarrow> real \<Rightarrow> real" where
  "newtonLoop 0 gp v = v"
| "newtonLoop (Suc t) gp v = newtonLoop t gp (newtonStep gp v)"

definition solve_v :: "real \<Rightarrow> real" where
  "solve_v gp = newtonLoop 6 gp (seed_v gp)"

definition dip :: "nat \<Rightarrow> real" where
  "dip i = (if i mod 180 = 0 then - 6 else if i mod 310 = 0 then - 10 else 0)"

definition whoosh :: "real \<Rightarrow> nat \<Rightarrow> real" where
  "whoosh gp i = (if gp < - 4 \<and> i mod 95 = 0 then 7 else 0)"

definition jitter :: "real \<Rightarrow> real" where
  "jitter u = (u - 0.5) * 0.6"

text \<open>
  The callback of \<^verbatim>\<open>grade.map\<close> at grade \<open>gp\<close> and index \<open>i\<close>, where \<open>u\<close> is the
  number its call of \<^verbatim>\<open>rng()\<close> draws.
\<close>

definition speedAt :: "real \<Rightarrow> nat \<Rightarrow> real \<Rightarrow> real" where
  "speedAt gp i u = max 5 (solve_v gp * 2.23694 + dip i + whoosh gp i + jitter u)"

fun speedMap :: "real list \<Rightarrow> nat \<Rightarrow> real \<Rightarrow> real list \<times> real" where
  "speedMap [] i r = ([], r)"
| "speedMap (gp # gs) i r =
     (let (u, r1) = mulberry32 r;
          (rest, r2) = speedMap gs (Suc i) r1
      in (speedAt gp i u # rest, r2))"

subsection \<open>makeRoutePreview\<close>

record preview =
  miles :: "real list"
  speed :: "real list"
  grade :: "real list"

definition pts :: nat where "pts = 1600"

definition milesSeries :: "real \<Rightarrow> real list" where
  "milesSeries totalMiles = map (\<lambda>i. (real i * totalMiles) / real (pts - 1)) [0..<pts]"

text \<open>
  The local \<^verbatim>\<open>elev_ft\<close>, with the captured variable of the generator after the two
  noise series have drawn from it.
\<close>

definition elevSeries :: "real \<Rightarrow> real list \<times> real" where
  "elevSeries seed =
     (let (base, r1) = noiseSeries pts seed 18;
          (bump, r2) = noiseSeries pts r1 5
      in (map (\<lambda>i. 60 * base ! i + 25 * bump ! i) [0..<length base], r2))"

definition makeRoutePreview :: "real \<Rightarrow> real \<Rightarrow> preview" where
  "makeRoutePreview totalMiles seed =
     (let ms = milesSeries totalMiles;
          (elev_ft, r2) = elevSeries seed;
          gr = smoothGrade (rawGrade elev_ft ms pts) pts;
          (sp, r3) = speedMap gr 0 r2
      in \<lparr> miles = ms, speed = sp, grade = gr \<rparr>)"


subsection \<open>The speed of one sample over numbers with infinities and NaN\<close>

text \<open>
  The same callback on JavaScript numbers that can be infinite or NaN. An operation on
  finite numbers gives the exact result unless it reaches the magnitude at which a double
  rounds to infinity, \<open>2 ^ 1024 - 2 ^ 970\<close>; the other cases follow the IEEE rules that
  JavaScript uses (\<^verbatim>\<open>Infinity - Infinity\<close>, \<^verbatim>\<open>0 * Infinity\<close>, \<^verbatim>\<open>Infinity / Infinity\<close>
  and \<^verbatim>\<open>0 / 0\<close> are NaN, NaN propagates, \<^verbatim>\<open>Math.max\<close> of NaN is NaN, a comparison
  with NaN is false). Rounding of finite results and the sign of zero are not modelled.
  The operations are applied in the order in which the source associates them.
\<close>

datatype jsnum = Num real | PosInf | NegInf | NaN

definition overflow_at :: real where
  "overflow_at = 2 ^ 1024 - 2 ^ 970"

definition js_fin :: "real \<Rightarrow> jsnum" where
  "js_fin r = (if overflow_at \<le> r then PosInf else if r \<le> - overflow_at then NegInf else Num r)"

fun js_sign :: "jsnum \<Rightarrow> real" where
  "js_sign (Num r) = sgn r"
| "js_sign PosInf = 1"
| "js_sign NegInf = - 1"
| "js_sign NaN = 0"

definition js_inf :: "real \<Rightarrow> jsnum" where
  "js_inf s = (if s = 0 then NaN else if 0 < s then PosInf else NegInf)"

fun js_neg :: "jsnum \<Rightarrow> jsnum" where
  "js_neg (Num r) = Num (- r)"
| "js_neg PosInf = NegInf"
| "js_neg NegInf = PosInf"
| "js_neg NaN = NaN"

fun js_abs :: "jsnum \<Rightarrow> jsnum" where
  "js_abs (Num r) = Num \<bar>r\<bar>"
| "js_abs PosInf = PosInf"
| "js_abs NegInf = PosInf"
| "js_abs NaN = NaN"

fun js_add :: "jsnum \<Rightarrow> jsnum \<Rightarrow> jsnum" where
  "js_add NaN y = NaN"
| "js_add x NaN = NaN"
| "js_add (Num a) (Num b) = js_fin (a + b)"
| "js_add PosInf NegInf = NaN"
| "js_add NegInf PosInf = NaN"
| "js_add PosInf y = PosInf"
| "js_add NegInf y = NegInf"
| "js_add (Num a) y = y"

definition js_sub :: "jsnum \<Rightarrow> jsnum \<Rightarrow> jsnum" where
  "js_sub x y = js_add x (js_neg y)"

fun js_mul :: "jsnum \<Rightarrow> jsnum \<Rightarrow> jsnum" where
  "js_mul NaN y = NaN"
| "js_mul x NaN = NaN"
| "js_mul (Num a) (Num b) = js_fin (a * b)"
| "js_mul x y = js_inf (js_sign x * js_sign y)"

fun js_div :: "jsnum \<Rightarrow> jsnum \<Rightarrow> jsnum" where
  "js_div NaN y = NaN"
| "js_div x NaN = NaN"
| "js_div (Num a) (Num b) = (if b = 0 then js_inf (sgn a) else js_fin (a / b))"
| "js_div (Num a) y = Num 0"
| "js_div x (Num b) = js_inf (js_sign x * (if b < 0 then - 1 else 1))"
| "js_div x y = NaN"

fun js_max :: "jsnum \<Rightarrow> jsnum \<Rightarrow> jsnum" where
  "js_max NaN y = NaN"
| "js_max x NaN = NaN"
| "js_max PosInf y = PosInf"
| "js_max x PosInf = PosInf"
| "js_max NegInf y = y"
| "js_max x NegInf = x"
| "js_max (Num a) (Num b) = Num (max a b)"

fun js_less :: "jsnum \<Rightarrow> jsnum \<Rightarrow> bool" where
  "js_less NaN y = False"
| "js_less x NaN = False"
| "js_less (Num a) (Num b) = (a < b)"
| "js_less x NegInf = False"
| "js_less PosInf y = False"
| "js_less x y = True"

fun js_atan :: "jsnum \<Rightarrow> jsnum" where
  "js_atan (Num r) = Num (arctan r)"
| "js_atan PosInf = Num (pi / 2)"
| "js_atan NegInf = Num (- (pi / 2))"
| "js_atan NaN = NaN"

fun js_sin :: "jsnum \<Rightarrow> jsnum" where
  "js_sin (Num r) = Num (sin r)"
| "js_sin x = NaN"

fun js_cos :: "jsnum \<Rightarrow> jsnum" where
  "js_cos (Num r) = Num (cos r)"
| "js_cos x = NaN"

definition js_aero :: "jsnum \<Rightarrow> jsnum" where
  "js_aero v = js_mul (js_mul (js_mul (js_mul (Num 0.5) (Num rho)) (Num CdA)) v) v"

definition js_newtonStep :: "jsnum \<Rightarrow> jsnum \<Rightarrow> jsnum \<Rightarrow> jsnum \<Rightarrow> jsnum" where
  "js_newtonStep grav_n roll_n P v =
     (let aero_n = js_aero v;
          f = js_sub (js_mul v (js_add (js_add grav_n roll_n) aero_n)) P;
          df = js_add (js_add grav_n roll_n) (js_mul (Num 1.5) aero_n)
      in js_max (Num 1)
           (js_sub v (js_mul (Num 0.6) (js_div f (js_max (Num (1 / 1000000)) df)))))"

fun js_newtonLoop :: "nat \<Rightarrow> jsnum \<Rightarrow> jsnum \<Rightarrow> jsnum \<Rightarrow> jsnum \<Rightarrow> jsnum" where
  "js_newtonLoop 0 grav_n roll_n P v = v"
| "js_newtonLoop (Suc t) grav_n roll_n P v =
     js_newtonLoop t grav_n roll_n P (js_newtonStep grav_n roll_n P v)"

definition js_speedAt :: "jsnum \<Rightarrow> nat \<Rightarrow> jsnum \<Rightarrow> jsnum" where
  "js_speedAt gp i u =
     (let theta_n = js_atan (js_div gp (Num 100));
          grav_n = js_mul (js_mul (Num mass) (Num grav_g)) (js_sin theta_n);
          roll_n = js_mul (js_mul (js_mul (Num mass) (Num grav_g)) (Num Crr)) (js_cos theta_n);
          v_flat_n = js_mul (Num flat_mph) (Num 0.44704);
          P = js_mul v_flat_n
                (js_add (js_mul (js_mul (Num mass) (Num grav_g)) (Num Crr))
                        (js_mul (js_mul (js_mul (js_mul (Num 0.5) (Num rho)) (Num CdA)) v_flat_n)
                                v_flat_n));
          v0 = js_max (Num 2)
                 (js_add v_flat_n
                    (if js_less gp (Num 0) then js_mul (js_abs gp) (Num 0.3)
                     else js_mul (js_neg gp) (Num 0.25)));
          v = js_newtonLoop 6 grav_n roll_n P v0;
          whoosh_n = (if js_less gp (Num (- 4)) \<and> i mod 95 = 0 then Num 7 else Num 0);
          jitter_n = js_mul (js_sub u (Num 0.5)) (Num 0.6)
      in js_max (Num 5)
           (js_add (js_add (js_add (js_mul v (Num 2.23694)) (Num (dip i))) whoosh_n) jitter_n))"

subsection \<open>The generator as a closure in a store\<close>

text \<open>
  Each call of \<^verbatim>\<open>mulberry32(seed)\<close> creates a closure with a variable of its own. Here
  the captured variables live in a store: \<open>mulberry32_new\<close> takes the next free cell for
  the new closure, \<open>rng_call\<close> is a call of the closure at a cell, and the functions that
  draw numbers are written again with the store passed through them, as far as
  \<^verbatim>\<open>makeRoutePreview\<close>, which returns its result and the store it leaves.
\<close>

record store =
  cells :: "nat \<Rightarrow> real"
  used :: nat

definition mulberry32_new :: "real \<Rightarrow> store \<Rightarrow> nat \<times> store" where
  "mulberry32_new seed s = (used s, \<lparr> cells = (cells s)(used s := seed), used = Suc (used s) \<rparr>)"

definition rng_call :: "nat \<Rightarrow> store \<Rightarrow> real \<times> store" where
  "rng_call a s =
     (let (u, seed') = mulberry32 (cells s a)
      in (u, s\<lparr> cells := (cells s)(a := seed') \<rparr>))"

fun draws_st :: "nat \<Rightarrow> nat \<Rightarrow> store \<Rightarrow> real list \<times> store" where
  "draws_st 0 r s = ([], s)"
| "draws_st (Suc n) r s =
     (let (u, s1) = rng_call r s;
          (xs, s2) = draws_st n r s1
      in ((u * 2 - 1) # xs, s2))"

definition noiseSeries_st :: "nat \<Rightarrow> nat \<Rightarrow> int \<Rightarrow> store \<Rightarrow> real list \<times> store" where
  "noiseSeries_st n r sm s =
     (let (a, s') = draws_st n r s;
          w = max 1 (sint (word_of_int sm :: 32 word));
          o_arr = map (noiseWindow a n w) [0..<n]
      in (o_arr, s'))"

fun speedMap_st :: "real list \<Rightarrow> nat \<Rightarrow> nat \<Rightarrow> store \<Rightarrow> real list \<times> store" where
  "speedMap_st [] i r s = ([], s)"
| "speedMap_st (gp # gs) i r s =
     (let (u, s1) = rng_call r s;
          (rest, s2) = speedMap_st gs (Suc i) r s1
      in (speedAt gp i u # rest, s2))"

definition makeRoutePreview_st :: "real \<Rightarrow> real \<Rightarrow> store \<Rightarrow> preview \<times> store" where
  "makeRoutePreview_st totalMiles seed s =
     (let (rng, s0) = mulberry32_new seed s;
          ms = milesSeries totalMiles;
          (base, s1) = noiseSeries_st pts rng 18 s0;
          (bump, s2) = noiseSeries_st pts rng 5 s1;
          elev_ft = map (\<lambda>i. 60 * base ! i + 25 * bump ! i) [0..<length base];
          gr = smoothGrade (rawGrade elev_ft ms pts) pts;
          (sp, s3) = speedMap_st gr 0 rng s2
      in (\<lparr> miles = ms, speed = sp, grade = gr \<rparr>, s3))"

subsection \<open>Reference definitions\<close>

text \<open>
  The smoothing as the specification words it, for comparison with \<open>smoothGrade\<close>:
  the plain average of the raw grades in the window \<open>i - 2 .. i + 2\<close>, truncated at
  both ends of the series.
\<close>

definition movingAverage5 :: "real list \<Rightarrow> real list" where
  "movingAverage5 g =
     map (\<lambda>i. let w = [i - 2..<min (length g) (i + 3)]
              in sum_list (map ((!) g) w) / real (length w))
         [0..<length g]"

text \<open>
  The aggregator of section 4.3 of the specification (\<^verbatim>\<open>aggregate\<close>) belongs to the
  backend, whose code is not among the sources: the pages only display the
  \<^verbatim>\<open>pred_time_h\<close> and \<^verbatim>\<open>pred_avg_mph\<close> it returns. The profile is the list
  \<open>ds\<close> of its distances; \<open>speeds\<close> holds one speed for each consecutive pair of
  samples.
\<close>

record analysis =
  distance_mi :: real
  pred_time_h :: real
  pred_avg_mph :: real

text \<open>
  Modelled from the spec: the backend's segment distances are missing; a segment is a
  consecutive pair of samples and its distance is the difference of their distances.
\<close>

definition segment_miles :: "real list \<Rightarrow> real list" where
  "segment_miles ds = map (\<lambda>i. ds ! (i + 1) - ds ! i) [0..<length ds - 1]"

text \<open>
  Modelled from the spec: the backend's segment times are missing; per-segment time =
  segment distance / segment speed.
\<close>

definition segment_times :: "real list \<Rightarrow> real list \<Rightarrow> real list" where
  "segment_times ds speeds =
     map (\<lambda>i. segment_miles ds ! i / speeds ! i) [0..<length ds - 1]"

text \<open>
  Modelled from the spec: the backend's \<^verbatim>\<open>aggregate\<close> is missing; total predicted time
  = sum of segment times, predicted average mph = total distance / total time.
\<close>

definition aggregate :: "real list \<Rightarrow> real list \<Rightarrow> analysis" where
  "aggregate ds speeds =
     (let total = sum_list (segment_miles ds);
          time = sum_list (segment_times ds speeds)
      in \<lparr> distance_mi = total, pred_time_h = time, pred_avg_mph = total / time \<rparr>)"

section \<open>Auxiliary facts\<close>

subsection \<open>Arrays updated in a loop\<close>

lemma foldl_update_length:
  "length (foldl (\<lambda>g i. g[i := h i]) g0 is) = length g0"
  by (induction "is" arbitrary: g0) simp_all

lemma foldl_update_upt_nth:
  "k < length g0 \<Longrightarrow>
   foldl (\<lambda>g i. g[i := h i]) g0 [a..<b] ! k = (if a \<le> k \<and> k < b then h k else g0 ! k)"
proof (induction b)
  case 0
  then show ?case by simp
next
  case (Suc b)
  show ?case
  proof (cases "a \<le> b")
    case True
    have "length (foldl (\<lambda>g i. g[i := h i]) g0 [a..<b]) = length g0"
      by (rule foldl_update_length)
    with True Suc show ?thesis
      by (cases "k = b") (simp_all add: nth_list_update)
  next
    case False
    then show ?thesis by auto
  qed
qed

lemma rawGrade_length: "length (rawGrade e m n) = n"
  by (simp add: rawGrade_def foldl_update_length)

lemma rawGrade_nth:
  "i < n \<Longrightarrow> rawGrade e m n ! i = (if 1 \<le> i then rawGradeAt e m i else 0)"
  by (simp add: rawGrade_def foldl_update_upt_nth)

lemma smoothAt_length: "length (smoothAt g i) = length g"
  by (simp add: smoothAt_def)

lemma smoothAt_nth:
  "smoothAt g i ! k =
     (if k = i \<and> i < length g
      then (g ! (i - 2) + g ! (i - 1) + g ! i + g ! (i + 1) + g ! (i + 2)) / 5
      else g ! k)"
proof (cases "i < length g")
  case True
  then show ?thesis by (simp add: smoothAt_def nth_list_update)
next
  case False
  then have "smoothAt g i = g"
    unfolding smoothAt_def by (intro list_update_beyond) simp
  with False show ?thesis by simp
qed

lemma smooth_fold_length: "length (foldl smoothAt g is) = length g"
  by (induction "is" arbitrary: g) (simp_all add: smoothAt_length)

lemma smoothGrade_length: "length (smoothGrade g n) = length g"
  by (simp add: smoothGrade_def smooth_fold_length)

lemma smooth_fold_outside:
  "k < 2 \<or> b \<le> k \<Longrightarrow> foldl smoothAt g [2..<b] ! k = g ! k"
proof (induction b)
  case 0
  then show ?case by simp
next
  case (Suc b)
  show ?case
  proof (cases "2 \<le> b")
    case True
    with Suc show ?thesis
      by (auto simp: smoothAt_nth)
  next
    case False
    then show ?thesis by simp
  qed
qed

lemma smooth_fold_inside:
  "2 \<le> k \<Longrightarrow> k < b \<Longrightarrow> b + 2 \<le> length g \<Longrightarrow>
   foldl smoothAt g [2..<b] ! k =
     (foldl smoothAt g [2..<b] ! (k - 2) + foldl smoothAt g [2..<b] ! (k - 1)
      + g ! k + g ! (k + 1) + g ! (k + 2)) / 5"
proof (induction b)
  case 0
  then show ?case by simp
next
  case (Suc b)
  let ?s = "foldl smoothAt g [2..<b]"
  have b2: "2 \<le> b"
    using Suc.prems by simp
  then have step: "foldl smoothAt g [2..<Suc b] = smoothAt ?s b"
    by simp
  have len: "length ?s = length g" by (rule smooth_fold_length)
  show ?case
  proof (cases "k = b")
    case True
    have "?s ! b = g ! b" "?s ! (b + 1) = g ! (b + 1)" "?s ! (b + 2) = g ! (b + 2)"
      by (simp_all add: smooth_fold_outside)
    moreover have "b - 2 \<noteq> b" "b - 1 \<noteq> b" "b < length g"
      using Suc.prems True by simp_all
    ultimately show ?thesis
      unfolding step using True len b2 by (simp add: smoothAt_nth)
  next
    case False
    with Suc.prems have kb: "k < b" by simp
    then have ih: "?s ! k = (?s ! (k - 2) + ?s ! (k - 1) + g ! k + g ! (k + 1) + g ! (k + 2)) / 5"
      using Suc by simp
    from kb have ne: "k \<noteq> b" "k - 2 \<noteq> b" "k - 1 \<noteq> b"
      by simp_all
    have "smoothAt ?s b ! k = ?s ! k" "smoothAt ?s b ! (k - 2) = ?s ! (k - 2)"
      "smoothAt ?s b ! (k - 1) = ?s ! (k - 1)"
      using ne by (simp_all only: smoothAt_nth if_False simp_thms)
    with ih show ?thesis
      unfolding step by simp
  qed
qed

subsection \<open>The generator and the series drawn from it\<close>

lemma roundEven_int: "roundEven (of_int m) = m"
  by (simp add: roundEven_def)

lemma toDouble_int:
  assumes "\<bar>z\<bar> < 2 ^ 53"
  shows "toDouble (of_int z) = of_int z"
proof (cases "z = 0")
  case True
  then show ?thesis by (simp add: toDouble_def)
next
  case False
  define e where "e = \<lfloor>log 2 \<bar>real_of_int z\<bar>\<rfloor> - 52"
  have pos: "0 < \<bar>real_of_int z\<bar>" using False by simp
  have "\<bar>real_of_int z\<bar> < 2 ^ 53"
    using assms by (metis of_int_abs of_int_less_iff of_int_numeral of_int_power)
  then have "log 2 \<bar>real_of_int z\<bar> < 53"
    using pos by (simp add: log_less_iff powr_realpow [of 2 53, simplified])
  then have "\<lfloor>log 2 \<bar>real_of_int z\<bar>\<rfloor> < 53"
    by (simp add: floor_less_iff)
  then have e: "e \<le> 0" by (simp add: e_def)
  define n where "n = nat (- e)"
  have ulp: "(if 0 \<le> e then 2 ^ nat e else 1 / 2 ^ nat (- e)) = 1 / (2 ^ n :: real)"
    using e by (cases "e = 0") (simp_all add: n_def)
  have q: "real_of_int z / (1 / 2 ^ n) = of_int (z * 2 ^ n)"
    by simp
  have "toDouble (of_int z) = of_int (roundEven (real_of_int z / (1 / 2 ^ n))) * (1 / 2 ^ n)"
    using False by (simp add: toDouble_def Let_def e_def [symmetric] ulp)
  also have "\<dots> = of_int (z * 2 ^ n) * (1 / 2 ^ n)"
    unfolding q roundEven_int ..
  also have "\<dots> = of_int z"
    by simp
  finally show ?thesis .
qed

lemma toInt32_int: "toInt32 (of_int z) = word_of_int z"
  by (simp add: toInt32_def)

lemma mulberry32_int:
  assumes "\<bar>z + 1831565813\<bar> < 2 ^ 53"
  shows "mulberry32 (of_int z) =
    (real (unat (scramble (word_of_int (z + 1831565813)))) / 4294967296, of_int (z + 1831565813))"
proof -
  have "real_of_int z + 0x6d2b79f5 = of_int (z + 1831565813)"
    by simp
  then show ?thesis
    unfolding mulberry32_def Let_def
    by (simp only: toDouble_int [OF assms] toInt32_int)
qed

text \<open>
  Beyond \<open>2 ^ 53\<close> the addition rounds: from the seed \<open>2 ^ 53\<close> the sum is odd and the
  captured variable becomes the even neighbour below it.
\<close>

lemma floor_log2_53: "\<lfloor>log 2 (9007201086306805 :: real)\<rfloor> = 53"
  by (subst floor_log_eq_powr_iff) (simp_all add: powr_realpow [of 2, simplified] powr_add)

lemma mulberry32_rounds: "mulberry32 (2 ^ 53) = (3850105811 / 4294967296, 9007201086306804)"
proof -
  have "toDouble 9007201086306805 = 9007201086306804"
    by (simp add: toDouble_def Let_def floor_log2_53 roundEven_def)
  then show ?thesis
    by (simp add: mulberry32_def Let_def toInt32_def scramble_def)
qed

lemma mulberry32_snd:
  "- (2 ^ 53) < z \<Longrightarrow> z + 1831565813 < 2 ^ 53 \<Longrightarrow>
   snd (mulberry32 (of_int z)) = of_int (z + 1831565813)"
  by (subst mulberry32_int) simp_all

lemma unat32_unit:
  "0 \<le> real (unat (w :: 32 word)) / 4294967296 \<and> real (unat w) / 4294967296 < 1"
proof -
  have "unat w < 2 ^ LENGTH(32)"
    by (rule unsigned_less)
  then have "unat w < 4294967296"
    by simp
  then have "real (unat w) < real 4294967296"
    by (simp only: of_nat_less_iff)
  then show ?thesis
    by (simp del: of_nat_unat)
qed

lemma mulberry32_range: "0 \<le> fst (mulberry32 r) \<and> fst (mulberry32 r) < 1"
  unfolding mulberry32_def Let_def fst_conv by (rule unat32_unit)

lemma draws_length: "length (fst (draws n r)) = n"
  by (induction n arbitrary: r) (simp_all add: split_beta Let_def)

lemma draws_snd:
  "- (2 ^ 53) < z \<Longrightarrow> z + int n * 1831565813 < 2 ^ 53 \<Longrightarrow>
   snd (draws n (of_int z)) = of_int (z + int n * 1831565813)"
proof (induction n arbitrary: z)
  case 0
  then show ?case by simp
next
  case (Suc n)
  have st: "snd (mulberry32 (of_int z)) = of_int (z + 1831565813)"
    using Suc.prems by (intro mulberry32_snd) simp_all
  have "snd (draws n (of_int (z + 1831565813))) = of_int (z + 1831565813 + int n * 1831565813)"
    using Suc.prems by (intro Suc.IH) simp_all
  then show ?case
    by (simp add: split_beta Let_def st algebra_simps)
qed

lemma noiseSeries_length: "length (fst (noiseSeries n r s)) = n"
  by (simp add: noiseSeries_def split_beta Let_def)

lemma noiseSeries_snd:
  "- (2 ^ 53) < z \<Longrightarrow> z + int n * 1831565813 < 2 ^ 53 \<Longrightarrow>
   snd (noiseSeries n (of_int z) s) = of_int (z + int n * 1831565813)"
  by (simp add: noiseSeries_def split_beta Let_def draws_snd)

lemma elevSeries_length: "length (fst (elevSeries seed)) = pts"
  by (simp add: elevSeries_def split_beta Let_def noiseSeries_length)

lemma elevSeries_snd:
  assumes "- (2 ^ 53) < z" "z + 3200 * 1831565813 < 2 ^ 53"
  shows "snd (elevSeries (of_int z)) = of_int (z + 3200 * 1831565813)"
proof -
  let ?z1 = "z + int pts * 1831565813"
  have a: "snd (noiseSeries pts (of_int z) 18) = of_int ?z1"
    using assms by (intro noiseSeries_snd) (simp_all add: pts_def)
  have b: "snd (noiseSeries pts (of_int ?z1) 5) = of_int (?z1 + int pts * 1831565813)"
    using assms by (intro noiseSeries_snd) (simp_all add: pts_def)
  have c: "?z1 + int pts * 1831565813 = z + 3200 * 1831565813"
    by (simp add: pts_def)
  have "snd (elevSeries (of_int z)) = snd (noiseSeries pts (snd (noiseSeries pts (of_int z) 18)) 5)"
    by (simp add: elevSeries_def split_beta Let_def)
  also have "\<dots> = of_int (z + 3200 * 1831565813)"
    unfolding a b c ..
  finally show ?thesis .
qed

lemma speedMap_length: "length (fst (speedMap gs i r)) = length gs"
  by (induction gs arbitrary: i r) (simp_all add: split_beta Let_def)

lemma speedMap_nth:
  "k < length gs \<Longrightarrow> - (2 ^ 53) < z \<Longrightarrow> z + (1 + int k) * 1831565813 < 2 ^ 53 \<Longrightarrow>
   fst (speedMap gs i (of_int z)) ! k
     = speedAt (gs ! k) (i + k) (fst (mulberry32 (of_int (z + int k * 1831565813))))"
proof (induction gs arbitrary: i z k)
  case Nil
  then show ?case by simp
next
  case (Cons gp gs)
  show ?case
  proof (cases k)
    case 0
    then show ?thesis by (simp add: split_beta Let_def)
  next
    case (Suc j)
    have st: "snd (mulberry32 (of_int z)) = of_int (z + 1831565813)"
      using Cons.prems by (intro mulberry32_snd) simp_all
    have "fst (speedMap gs (Suc i) (of_int (z + 1831565813))) ! j
          = speedAt (gs ! j) (Suc i + j)
              (fst (mulberry32 (of_int (z + 1831565813 + int j * 1831565813))))"
      using Cons.prems Suc by (intro Cons.IH) (simp_all add: algebra_simps)
    then show ?thesis
      using Suc by (simp add: split_beta Let_def st algebra_simps)
  qed
qed

lemma milesSeries_length: "length (milesSeries tm) = pts"
  by (simp add: milesSeries_def)

lemma preview_miles: "miles (makeRoutePreview tm seed) = milesSeries tm"
  by (simp add: makeRoutePreview_def split_beta Let_def)

lemma preview_grade:
  "grade (makeRoutePreview tm seed) =
     smoothGrade (rawGrade (fst (elevSeries seed)) (milesSeries tm) pts) pts"
  by (simp add: makeRoutePreview_def split_beta Let_def)

lemma preview_speed:
  "speed (makeRoutePreview tm seed) =
     fst (speedMap (grade (makeRoutePreview tm seed)) 0 (snd (elevSeries seed)))"
  by (simp add: makeRoutePreview_def split_beta Let_def)

lemma preview_grade_length: "length (grade (makeRoutePreview tm seed)) = pts"
  by (simp add: preview_grade smoothGrade_length rawGrade_length)

lemma milesSeries_sorted: "0 \<le> tm \<Longrightarrow> sorted (milesSeries tm)"
  unfolding milesSeries_def sorted_iff_nth_mono
  by (auto simp: divide_right_mono mult_right_mono)

lemma rawGrade_example:
  "rawGrade [0, 264, 264, 264, 264, 264] [0, 1, 2, 3, 4, 5] 6 = [0, 5, 0, 0, 0, 0]"
  by (simp add: rawGrade_def rawGradeAt_def Let_def upt_rec eval_nat_numeral)

lemma smoothGrade_example:
  "smoothGrade [0, 5, 0, 0, 0, 0] 6 = [0, 5, 1, 6 / 5, 0, 0]"
  by (simp add: smoothGrade_def smoothAt_def upt_rec)

lemma movingAverage5_example:
  "movingAverage5 [0, 5, 0, 0, 0, 0] = [5 / 3, 5 / 4, 1, 1, 0, 0]"
  by (simp add: movingAverage5_def Let_def upt_rec)

subsection \<open>The solver at zero grade and on steep climbs\<close>

lemma v_flat_value: "v_flat = 8.27024"
  by (simp add: v_flat_def flat_mph_def)

lemma grav_zero: "grav 0 = 0"
  by (simp add: grav_def theta_def)

lemma roll_zero: "roll 0 = mass * grav_g * Crr"
  by (simp add: roll_def theta_def)

lemma f_bal_flat: "f_bal 0 v_flat = 0"
  by (simp add: f_bal_def grav_zero roll_zero aero_def power_P_def algebra_simps)

lemma newtonStep_flat: "newtonStep 0 v_flat = v_flat"
proof -
  have "newtonStep 0 v_flat = max 1 v_flat"
    by (simp add: newtonStep_def f_bal_flat)
  then show ?thesis
    by (simp add: v_flat_value)
qed

lemma solve_v_flat: "solve_v 0 = v_flat"
proof -
  have "seed_v 0 = v_flat"
    by (simp add: seed_v_def v_flat_value)
  then show ?thesis
    by (simp add: solve_v_def eval_nat_numeral newtonStep_flat)
qed

lemma jitter_draw: "fst (mulberry32 5861010602937) = 61516265 / 67108864"
  using mulberry32_int [of 5861010602937] by (simp add: scramble_def Let_def)

lemma preview_speed_nth:
  assumes "i < pts" "- (2 ^ 53) < z" "z + 4800 * 1831565813 < 2 ^ 53"
  shows "speed (makeRoutePreview tm (of_int z)) ! i =
     speedAt (grade (makeRoutePreview tm (of_int z)) ! i) i
       (fst (mulberry32 (of_int (z + (3200 + int i) * 1831565813))))"
proof -
  have e: "snd (elevSeries (of_int z)) = of_int (z + 3200 * 1831565813)"
    using assms by (intro elevSeries_snd) simp_all
  have "fst (speedMap (grade (makeRoutePreview tm (of_int z))) 0
               (of_int (z + 3200 * 1831565813))) ! i
        = speedAt (grade (makeRoutePreview tm (of_int z)) ! i) (0 + i)
            (fst (mulberry32 (of_int (z + 3200 * 1831565813 + int i * 1831565813))))"
    using assms by (intro speedMap_nth) (simp_all add: preview_grade_length pts_def)
  then show ?thesis
    by (simp add: preview_speed e algebra_simps)
qed

lemma preview_grade_0: "grade (makeRoutePreview tm seed) ! 0 = 0"
  unfolding preview_grade smoothGrade_def
  by (subst smooth_fold_outside) (simp_all add: rawGrade_nth pts_def)

lemma preview_speed_0:
  "speed (makeRoutePreview 85 1337) ! 0 = 8355858962241991 / 655360000000000"
proof -
  have "speed (makeRoutePreview 85 1337) ! 0 = speedAt 0 0 (61516265 / 67108864)"
    using preview_speed_nth [of 0 1337 85] by (simp add: pts_def preview_grade_0 jitter_draw)
  also have "\<dots> = 8355858962241991 / 655360000000000"
    by (simp add: speedAt_def solve_v_flat v_flat_value dip_def whoosh_def jitter_def)
  finally show ?thesis .
qed

lemma sin_theta_steep:
  assumes "26 \<le> gp"
  shows "1 / 4 \<le> sin (theta gp)"
proof -
  let ?x = "gp / 100"
  have x: "26 / 100 \<le> ?x" using assms by simp
  have "(26 / 100)\<^sup>2 \<le> ?x\<^sup>2"
    using x by (intro power_mono) simp_all
  then have "1 + ?x\<^sup>2 \<le> 16 * ?x\<^sup>2"
    by (simp add: power2_eq_square)
  then have "sqrt (1 + ?x\<^sup>2) \<le> sqrt (16 * ?x\<^sup>2)"
    by (rule real_sqrt_le_mono)
  also have "sqrt (16 * ?x\<^sup>2) = 4 * ?x"
    using x by (simp add: real_sqrt_mult)
  finally have "sqrt (1 + ?x\<^sup>2) \<le> 4 * ?x" .
  moreover have "0 < sqrt (1 + ?x\<^sup>2)"
    by (simp add: add_pos_nonneg)
  ultimately have "1 / 4 \<le> ?x / sqrt (1 + ?x\<^sup>2)"
    by (simp add: field_simps)
  then show ?thesis
    by (simp add: theta_def sin_arctan)
qed

lemma cos_theta_pos: "0 < cos (theta gp)"
  by (simp add: theta_def cos_arctan add_pos_nonneg)

lemma power_P_bound: "power_P < 125"
  by (simp add: power_P_def v_flat_value mass_def grav_g_def Crr_def rho_def CdA_def)

lemma grav_steep: "26 \<le> gp \<Longrightarrow> 152 \<le> grav gp"
proof -
  assume "26 \<le> gp"
  then have "1 / 4 \<le> sin (theta gp)" by (rule sin_theta_steep)
  then have "mass * grav_g * (1 / 4) \<le> mass * grav_g * sin (theta gp)"
    by (intro mult_left_mono) (simp_all add: mass_def grav_g_def)
  then show ?thesis
    by (simp add: grav_def mass_def grav_g_def)
qed

lemma roll_pos: "0 < roll gp"
  using cos_theta_pos [of gp] by (simp add: roll_def mass_def grav_g_def Crr_def)

lemma aero_nonneg: "0 \<le> aero v"
  by (simp add: aero_def rho_def CdA_def)

lemma newtonStep_ge_1: "1 \<le> newtonStep gp v"
  by (simp add: newtonStep_def)

lemma newtonStep_steep:
  assumes "26 \<le> gp" "1 \<le> v"
  shows "newtonStep gp v \<le> v"
proof -
  have F: "152 < grav gp + roll gp + aero v"
    using grav_steep [OF assms(1)] roll_pos [of gp] aero_nonneg [of v] by linarith
  then have "1 * 152 \<le> v * (grav gp + roll gp + aero v)"
    using assms(2) by (intro mult_mono) simp_all
  then have f: "0 \<le> f_bal gp v"
    using power_P_bound by (simp add: f_bal_def)
  have "0 < max (1 / 1000000) (df_bal gp v)"
    by simp
  with f have "0 \<le> f_bal gp v / max (1 / 1000000) (df_bal gp v)"
    by (intro divide_nonneg_pos)
  then show ?thesis
    using assms(2) by (simp add: newtonStep_def)
qed

lemma newtonLoop_steep:
  "26 \<le> gp \<Longrightarrow> 1 \<le> v \<Longrightarrow> 1 \<le> newtonLoop t gp v \<and> newtonLoop t gp v \<le> v"
proof (induction t arbitrary: v)
  case 0
  then show ?case by simp
next
  case (Suc t)
  have a: "1 \<le> newtonStep gp v" by (rule newtonStep_ge_1)
  have b: "newtonStep gp v \<le> v" using Suc.prems by (rule newtonStep_steep)
  from Suc.IH [OF Suc.prems(1) a] b show ?case by simp
qed

lemma seed_v_steep: "26 \<le> gp \<Longrightarrow> seed_v gp = 2"
  by (simp add: seed_v_def v_flat_value)

lemma solve_v_steep: "26 \<le> gp \<Longrightarrow> 1 \<le> solve_v gp \<and> solve_v gp \<le> 2"
  using newtonLoop_steep [of gp 2 6] by (simp add: solve_v_def seed_v_steep)

lemma dip_nonpos: "dip i \<le> 0"
  by (simp add: dip_def)

lemma speedAt_steep:
  assumes "26 \<le> gp" "u \<le> 1"
  shows "speedAt gp i u = 5"
proof -
  have "solve_v gp * 2.23694 \<le> 2 * 2.23694"
    using solve_v_steep [OF assms(1)] by simp
  moreover have "whoosh gp i = 0"
    using assms(1) by (simp add: whoosh_def)
  moreover have "jitter u \<le> 3 / 10"
    using assms(2) by (simp add: jitter_def)
  ultimately have "solve_v gp * 2.23694 + dip i + whoosh gp i + jitter u \<le> 5"
    using dip_nonpos [of i] by simp
  then show ?thesis
    by (simp add: speedAt_def)
qed

lemma seed_v_antimono: "g1 \<le> g2 \<Longrightarrow> seed_v g2 \<le> seed_v g1"
  by (auto simp: seed_v_def)

lemma seed_v_strict: "g1 < g2 \<Longrightarrow> 2 < seed_v g1 \<Longrightarrow> seed_v g2 < seed_v g1"
  by (auto simp: seed_v_def max_def split: if_splits)

lemma f_bal_deriv: "(f_bal gp has_real_derivative (grav gp + roll gp + 3 * aero v)) (at v)"
  unfolding f_bal_def [abs_def] aero_def [abs_def]
  by (auto intro!: derivative_eq_intros simp: algebra_simps)

subsection \<open>Bounds on a step of the iteration\<close>

text \<open>
  Where \<open>f\<close> and the slope \<open>df\<close> both grow with \<open>v\<close>, an interval that contains
  \<open>v\<close> gives an interval that contains the next iterate. Six such steps bound the
  solved speed at two descents whose slope angles have rational sine and cosine, the
  grades \<open>- 1840 / 423\<close> (about -4.35 percent) and \<open>- 9600 / 2303\<close> (about -4.17
  percent): the steeper descent ends at about 12.84 m/s, the gentler one at about
  13.83 m/s. The first step of each starts where \<open>df\<close> is close to zero and jumps to 100
  m/s and 62 m/s, and six steps do not bring the iteration back to the balanced speed.
\<close>

lemma f_bal_mono:
  assumes "0 < a" "a \<le> v" "0 \<le> grav gp + roll gp + 3 * aero a"
  shows "f_bal gp a \<le> f_bal gp v"
proof -
  let ?c = "0.5 * rho * CdA"
  have c: "0 \<le> ?c" by (simp add: rho_def CdA_def)
  have "3 * (a * a) \<le> v * v + v * a + a * a"
  proof -
    have "a * a \<le> v * v" using assms(1,2) by (intro mult_mono) simp_all
    moreover have "a * a \<le> v * a" using assms(1,2) by (intro mult_right_mono) simp_all
    ultimately show ?thesis by simp
  qed
  then have "?c * (3 * (a * a)) \<le> ?c * (v * v + v * a + a * a)"
    using c by (rule mult_left_mono)
  moreover have "3 * aero a = ?c * (3 * (a * a))"
    by (simp add: aero_def)
  ultimately have "0 \<le> grav gp + roll gp + ?c * (v * v + v * a + a * a)"
    using assms(3) by linarith
  then have "0 \<le> (v - a) * (grav gp + roll gp + ?c * (v * v + v * a + a * a))"
    using assms(2) by (intro mult_nonneg_nonneg) simp_all
  also have "\<dots> = f_bal gp v - f_bal gp a"
    by (simp add: f_bal_def aero_def field_simps)
  finally show ?thesis by simp
qed

lemma df_bal_mono:
  assumes "0 \<le> a" "a \<le> v"
  shows "df_bal gp a \<le> df_bal gp v"
proof -
  have "a * a \<le> v * v" using assms by (intro mult_mono) simp_all
  then have "0.5 * rho * CdA * (a * a) \<le> 0.5 * rho * CdA * (v * v)"
    by (intro mult_left_mono) (simp_all add: rho_def CdA_def)
  then show ?thesis
    by (simp add: df_bal_def aero_def algebra_simps)
qed

lemma newtonStep_above:
  assumes "0 < a" "a \<le> v" "v \<le> b"
    and "0 \<le> grav gp + roll gp + 3 * aero a"
    and "1 / 1000000 \<le> df_bal gp a"
    and "0 \<le> f_bal gp a"
    and "lo \<le> a - 0.6 * (f_bal gp b / df_bal gp a)"
    and "b - 0.6 * (f_bal gp a / df_bal gp b) \<le> hi"
    and "1 \<le> lo"
  shows "lo \<le> newtonStep gp v \<and> newtonStep gp v \<le> hi"
proof -
  have av: "0 < v" using assms(1,2) by simp
  have fa: "f_bal gp a \<le> f_bal gp v" using assms(1,2,4) by (rule f_bal_mono)
  have "0 \<le> grav gp + roll gp + 3 * aero v"
  proof -
    have "a * a \<le> v * v" using assms(1,2) by (intro mult_mono) simp_all
    then have "0.5 * rho * CdA * (a * a) \<le> 0.5 * rho * CdA * (v * v)"
      by (intro mult_left_mono) (simp_all add: rho_def CdA_def)
    then have "aero a \<le> aero v" by (simp add: aero_def algebra_simps)
    with assms(4) show ?thesis by simp
  qed
  with av assms(3) have fb: "f_bal gp v \<le> f_bal gp b" by (intro f_bal_mono)
  have da: "df_bal gp a \<le> df_bal gp v" using assms(1,2) by (intro df_bal_mono) simp_all
  have db: "df_bal gp v \<le> df_bal gp b" using av assms(3) by (intro df_bal_mono) simp_all
  have dpos: "0 < df_bal gp a" using assms(5) by simp
  have m: "max (1 / 1000000) (df_bal gp v) = df_bal gp v"
    using assms(5) da by simp
  have "f_bal gp v / df_bal gp v \<le> f_bal gp b / df_bal gp a"
    using fa fb da dpos assms(6) by (intro frac_le) simp_all
  moreover have "f_bal gp a / df_bal gp b \<le> f_bal gp v / df_bal gp v"
    using fa db da dpos assms(6) by (intro frac_le) simp_all
  ultimately have "lo \<le> v - 0.6 * (f_bal gp v / df_bal gp v)"
    and "v - 0.6 * (f_bal gp v / df_bal gp v) \<le> hi"
    using assms(2,3,7,8) by simp_all
  then show ?thesis
    using assms(9) by (simp add: newtonStep_def m)
qed

lemma newtonStep_below:
  assumes "0 < a" "a \<le> v" "v \<le> b"
    and "0 \<le> grav gp + roll gp + 3 * aero a"
    and "1 / 1000000 \<le> df_bal gp a"
    and "f_bal gp b \<le> 0"
    and "lo \<le> a - 0.6 * (f_bal gp b / df_bal gp b)"
    and "b - 0.6 * (f_bal gp a / df_bal gp a) \<le> hi"
    and "1 \<le> lo"
  shows "lo \<le> newtonStep gp v \<and> newtonStep gp v \<le> hi"
proof -
  have av: "0 < v" using assms(1,2) by simp
  have fa: "f_bal gp a \<le> f_bal gp v" using assms(1,2,4) by (rule f_bal_mono)
  have "0 \<le> grav gp + roll gp + 3 * aero v"
  proof -
    have "a * a \<le> v * v" using assms(1,2) by (intro mult_mono) simp_all
    then have "0.5 * rho * CdA * (a * a) \<le> 0.5 * rho * CdA * (v * v)"
      by (intro mult_left_mono) (simp_all add: rho_def CdA_def)
    then have "aero a \<le> aero v" by (simp add: aero_def algebra_simps)
    with assms(4) show ?thesis by simp
  qed
  with av assms(3) have fb: "f_bal gp v \<le> f_bal gp b" by (intro f_bal_mono)
  have da: "df_bal gp a \<le> df_bal gp v" using assms(1,2) by (intro df_bal_mono) simp_all
  have db: "df_bal gp v \<le> df_bal gp b" using av assms(3) by (intro df_bal_mono) simp_all
  have dpos: "0 < df_bal gp a" using assms(5) by simp
  have m: "max (1 / 1000000) (df_bal gp v) = df_bal gp v"
    using assms(5) da by simp
  have "- f_bal gp v / df_bal gp v \<le> - f_bal gp a / df_bal gp a"
    using fa fb da dpos assms(6) by (intro frac_le) simp_all
  moreover have "- f_bal gp b / df_bal gp b \<le> - f_bal gp v / df_bal gp v"
    using fa fb db da dpos assms(6) by (intro frac_le) simp_all
  ultimately have "lo \<le> v - 0.6 * (f_bal gp v / df_bal gp v)"
    and "v - 0.6 * (f_bal gp v / df_bal gp v) \<le> hi"
    using assms(2,3,7,8) by simp_all
  then show ?thesis
    using assms(9) by (simp add: newtonStep_def m)
qed

lemma trig_a:
  "sin (theta (- (1840 / 423))) = - (92 / 2117) \<and> cos (theta (- (1840 / 423))) = 2115 / 2117"
proof -
  have "1 + (92 / 2115)\<^sup>2 = ((2117 / 2115)\<^sup>2 :: real)"
    by (simp add: power2_eq_square)
  then have s: "sqrt (1 + (92 / 2115)\<^sup>2) = 2117 / 2115"
    by (simp only: real_sqrt_abs)
  have x: "- (1840 / 423) / 100 = - (92 / 2115 :: real)" by simp
  show ?thesis
    unfolding theta_def x by (simp add: sin_arctan cos_arctan s)
qed

lemma force_a: "grav (- (1840 / 423)) + roll (- (1840 / 423)) = - (25396673771 / 1058500000)"
  by (simp add: grav_def roll_def trig_a mass_def grav_g_def Crr_def)

lemma seed_a: "seed_v (- (1840 / 423)) = 8438149 / 881250"
  by (simp add: seed_v_def v_flat_value)

lemma solve_a: "12837675 / 1000000 \<le> solve_v (- (1840 / 423)) \<and> solve_v (- (1840 / 423)) \<le> 12838070 / 1000000"
proof -
  note num = f_bal_def df_bal_def aero_def force_a power_P_def v_flat_value
    mass_def grav_g_def Crr_def rho_def CdA_def
  let ?g = "- (1840 / 423) :: real"
  let ?v0 = "8438149 / 881250 :: real"
  let ?v1 = "newtonStep ?g ?v0"
  have b1: "99977829 / 1000000 \<le> ?v1 \<and> ?v1 \<le> 99977830 / 1000000"
    by (rule newtonStep_below [where a = ?v0 and b = ?v0]) (simp_all add: num)
  let ?v2 = "newtonStep ?g ?v1"
  have b2: "60189618 / 1000000 \<le> ?v2 \<and> ?v2 \<le> 60189622 / 1000000"
    by (rule newtonStep_above [OF _ conjunct1 [OF b1] conjunct2 [OF b1]]) (simp_all add: num)
  let ?v3 = "newtonStep ?g ?v2"
  have b3: "36486515 / 1000000 \<le> ?v3 \<and> ?v3 \<le> 36486528 / 1000000"
    by (rule newtonStep_above [OF _ conjunct1 [OF b2] conjunct2 [OF b2]]) (simp_all add: num)
  let ?v4 = "newtonStep ?g ?v3"
  have b4: "22619480 / 1000000 \<le> ?v4 \<and> ?v4 \<le> 22619521 / 1000000"
    by (rule newtonStep_above [OF _ conjunct1 [OF b3] conjunct2 [OF b3]]) (simp_all add: num)
  let ?v5 = "newtonStep ?g ?v4"
  have b5: "15135142 / 1000000 \<le> ?v5 \<and> ?v5 \<le> 15135271 / 1000000"
    by (rule newtonStep_above [OF _ conjunct1 [OF b4] conjunct2 [OF b4]]) (simp_all add: num)
  let ?v6 = "newtonStep ?g ?v5"
  have b6: "12837675 / 1000000 \<le> ?v6 \<and> ?v6 \<le> 12838070 / 1000000"
    by (rule newtonStep_above [OF _ conjunct1 [OF b5] conjunct2 [OF b5]]) (simp_all add: num)
  have "solve_v ?g = ?v6"
    by (simp add: solve_v_def seed_a eval_nat_numeral)
  with b6 show ?thesis by simp
qed

lemma trig_b:
  "sin (theta (- (9600 / 2303))) = - (96 / 2305) \<and> cos (theta (- (9600 / 2303))) = 2303 / 2305"
proof -
  have "1 + (96 / 2303)\<^sup>2 = ((2305 / 2303)\<^sup>2 :: real)"
    by (simp add: power2_eq_square)
  then have s: "sqrt (1 + (96 / 2303)\<^sup>2) = 2305 / 2303"
    by (simp only: real_sqrt_abs)
  have x: "- (9600 / 2303) / 100 = - (96 / 2303 :: real)" by simp
  show ?thesis
    unfolding theta_def x by (simp add: sin_arctan cos_arctan s)
qed

lemma force_b: "grav (- (9600 / 2303)) + roll (- (9600 / 2303)) = - (131920428731 / 5762500000)"
  by (simp add: grav_def roll_def trig_b mass_def grav_g_def Crr_def)

lemma seed_b: "seed_v (- (9600 / 2303)) = 137039767 / 14393750"
  by (simp add: seed_v_def v_flat_value)

lemma solve_b: "13826233 / 1000000 \<le> solve_v (- (9600 / 2303)) \<and> solve_v (- (9600 / 2303)) \<le> 13826674 / 1000000"
proof -
  note num = f_bal_def df_bal_def aero_def force_b power_P_def v_flat_value
    mass_def grav_g_def Crr_def rho_def CdA_def
  let ?g = "- (9600 / 2303) :: real"
  let ?v0 = "137039767 / 14393750 :: real"
  let ?v1 = "newtonStep ?g ?v0"
  have b1: "62150855 / 1000000 \<le> ?v1 \<and> ?v1 \<le> 62150856 / 1000000"
    by (rule newtonStep_below [where a = ?v0 and b = ?v0]) (simp_all add: num)
  let ?v2 = "newtonStep ?g ?v1"
  have b2: "37635112 / 1000000 \<le> ?v2 \<and> ?v2 \<le> 37635116 / 1000000"
    by (rule newtonStep_above [OF _ conjunct1 [OF b1] conjunct2 [OF b1]]) (simp_all add: num)
  let ?v3 = "newtonStep ?g ?v2"
  have b3: "23252478 / 1000000 \<le> ?v3 \<and> ?v3 \<le> 23252492 / 1000000"
    by (rule newtonStep_above [OF _ conjunct1 [OF b2] conjunct2 [OF b2]]) (simp_all add: num)
  let ?v4 = "newtonStep ?g ?v3"
  have b4: "15385651 / 1000000 \<le> ?v4 \<and> ?v4 \<le> 15385695 / 1000000"
    by (rule newtonStep_above [OF _ conjunct1 [OF b3] conjunct2 [OF b3]]) (simp_all add: num)
  let ?v5 = "newtonStep ?g ?v4"
  have b5: "12652050 / 1000000 \<le> ?v5 \<and> ?v5 \<le> 12652186 / 1000000"
    by (rule newtonStep_above [OF _ conjunct1 [OF b4] conjunct2 [OF b4]]) (simp_all add: num)
  let ?v6 = "newtonStep ?g ?v5"
  have b6: "13826233 / 1000000 \<le> ?v6 \<and> ?v6 \<le> 13826674 / 1000000"
    by (rule newtonStep_below [OF _ conjunct1 [OF b5] conjunct2 [OF b5]]) (simp_all add: num)
  have "solve_v ?g = ?v6"
    by (simp add: solve_v_def seed_b eval_nat_numeral)
  with b6 show ?thesis by simp
qed


lemma speedAt_inversion:
  "- (1840 / 423) < (- (9600 / 2303) :: real)
   \<and> speedAt (- (1840 / 423)) 1 (1 / 2) < speedAt (- (9600 / 2303)) 1 (1 / 2)"
proof -
  have a: "solve_v (- (1840 / 423)) * 2.23694 \<le> 29"
    using solve_a by simp
  have b: "30 \<le> solve_v (- (9600 / 2303)) * 2.23694"
    using solve_b by simp
  from a b show ?thesis
    by (simp add: speedAt_def dip_def whoosh_def jitter_def)
qed

subsection \<open>Finite numbers stay finite\<close>

text \<open>
  While every intermediate value stays below \<open>10 ^ 60\<close> in magnitude, the operations on
  numbers with infinities and NaN return what the operations on reals return. The
  iteration keeps its iterate between 1 and \<open>10 ^ 11\<close>: a step from a point where
  \<open>f\<close> is not negative does not increase it, and \<open>f\<close> is negative only below 64 m/s,
  from where one step adds at most \<open>6 * 10 ^ 10\<close>.
\<close>

lemma overflow_at_big: "(10 :: real) ^ 60 < overflow_at"
  by (simp add: overflow_at_def)

lemma js_fin_Num: "\<bar>r\<bar> < 10 ^ 60 \<Longrightarrow> js_fin r = Num r"
proof -
  assume "\<bar>r\<bar> < 10 ^ 60"
  then have "r < overflow_at" "- overflow_at < r"
    using overflow_at_big by linarith+
  then show ?thesis
    by (simp add: js_fin_def)
qed

lemma abs_mult_le: "\<bar>a\<bar> \<le> A \<Longrightarrow> \<bar>b\<bar> \<le> B \<Longrightarrow> \<bar>a * b\<bar> \<le> A * (B :: real)"
  unfolding abs_mult by (intro mult_mono) (auto intro: order_trans [OF abs_ge_zero])

lemma abs_add_le: "\<bar>a\<bar> \<le> A \<Longrightarrow> \<bar>b\<bar> \<le> B \<Longrightarrow> \<bar>a + b\<bar> \<le> A + (B :: real)"
  by linarith

lemma abs_diff_le: "\<bar>a\<bar> \<le> A \<Longrightarrow> \<bar>b\<bar> \<le> B \<Longrightarrow> \<bar>a - b\<bar> \<le> A + (B :: real)"
  by linarith

lemma abs_div_le: "\<bar>a\<bar> \<le> A \<Longrightarrow> 0 < e \<Longrightarrow> e \<le> b \<Longrightarrow> \<bar>a / b\<bar> \<le> A / (e :: real)"
proof -
  assume a: "\<bar>a\<bar> \<le> A" and e: "0 < e" "e \<le> b"
  then have "\<bar>a\<bar> / b \<le> A / e"
    by (intro frac_le) (auto intro: order_trans [OF abs_ge_zero])
  with e show ?thesis by simp
qed

lemma js_mul_Num:
  "\<bar>a\<bar> \<le> A \<Longrightarrow> \<bar>b\<bar> \<le> B \<Longrightarrow> A * B < 10 ^ 60 \<Longrightarrow> js_mul (Num a) (Num b) = Num (a * b)"
  using abs_mult_le [of a A b B] by (simp add: js_fin_Num)

lemma js_add_Num:
  "\<bar>a\<bar> \<le> A \<Longrightarrow> \<bar>b\<bar> \<le> B \<Longrightarrow> A + B < 10 ^ 60 \<Longrightarrow> js_add (Num a) (Num b) = Num (a + b)"
  using abs_add_le [of a A b B] by (simp add: js_fin_Num)

lemma js_sub_Num:
  "\<bar>a\<bar> \<le> A \<Longrightarrow> \<bar>b\<bar> \<le> B \<Longrightarrow> A + B < 10 ^ 60 \<Longrightarrow> js_sub (Num a) (Num b) = Num (a - b)"
  using abs_diff_le [of a A b B] by (simp add: js_sub_def js_fin_Num)

lemma js_div_Num:
  "\<bar>a\<bar> \<le> A \<Longrightarrow> 0 < e \<Longrightarrow> e \<le> b \<Longrightarrow> A / e < 10 ^ 60 \<Longrightarrow> js_div (Num a) (Num b) = Num (a / b)"
  using abs_div_le [of a A e b] by (simp add: js_fin_Num)

lemma js_newtonStep_Num:
  assumes v: "1 \<le> v" "v \<le> 10 ^ 11"
    and g: "\<bar>gr\<bar> \<le> 700" and r: "\<bar>ro\<bar> \<le> 3" and p: "\<bar>pw\<bar> \<le> 125"
  shows "js_newtonStep (Num gr) (Num ro) (Num pw) (Num v) =
    Num (max 1 (v - 0.6 * ((v * (gr + ro + 0.5 * rho * CdA * v * v) - pw)
                            / max (1 / 1000000) (gr + ro + 1.5 * (0.5 * rho * CdA * v * v)))))"
proof -
  let ?a = "0.5 * rho * CdA * v * v"
  let ?f = "v * (gr + ro + ?a) - pw"
  let ?d = "gr + ro + 1.5 * ?a"
  let ?m = "max (1 / 1000000) ?d"
  have av: "\<bar>v\<bar> \<le> 10 ^ 11" using v by simp
  have c1: "\<bar>0.5 * rho\<bar> \<le> 1" by (simp add: rho_def)
  have c2: "\<bar>0.5 * rho * CdA\<bar> \<le> 1" by (simp add: rho_def CdA_def)
  have c3: "\<bar>0.5 * rho * CdA * v\<bar> \<le> 1 * 10 ^ 11" using c2 av by (rule abs_mult_le)
  have c4: "\<bar>?a\<bar> \<le> 1 * 10 ^ 11 * 10 ^ 11" using c3 av by (rule abs_mult_le)
  have s1: "\<bar>gr + ro\<bar> \<le> 700 + 3" using g r by (rule abs_add_le)
  have s2: "\<bar>gr + ro + ?a\<bar> \<le> 700 + 3 + 1 * 10 ^ 11 * 10 ^ 11" using s1 c4 by (rule abs_add_le)
  have s3: "\<bar>v * (gr + ro + ?a)\<bar> \<le> 10 ^ 11 * (700 + 3 + 1 * 10 ^ 11 * 10 ^ 11)"
    using av s2 by (rule abs_mult_le)
  have s4: "\<bar>?f\<bar> \<le> 10 ^ 11 * (700 + 3 + 1 * 10 ^ 11 * 10 ^ 11) + 125"
    using s3 p by (rule abs_diff_le)
  have d0: "\<bar>1.5 :: real\<bar> \<le> 2" by simp
  have d1: "\<bar>1.5 * ?a\<bar> \<le> 2 * (1 * 10 ^ 11 * 10 ^ 11)" using d0 c4 by (rule abs_mult_le)
  have d2: "\<bar>?d\<bar> \<le> 700 + 3 + 2 * (1 * 10 ^ 11 * 10 ^ 11)" using s1 d1 by (rule abs_add_le)
  have me: "(1 / 1000000 :: real) \<le> ?m" by simp
  have q1: "\<bar>?f / ?m\<bar> \<le> (10 ^ 11 * (700 + 3 + 1 * 10 ^ 11 * 10 ^ 11) + 125) / (1 / 1000000)"
    using s4 _ me by (rule abs_div_le) simp
  have t0: "\<bar>0.6 :: real\<bar> \<le> 1" by simp
  have t1: "\<bar>0.6 * (?f / ?m)\<bar>
      \<le> 1 * ((10 ^ 11 * (700 + 3 + 1 * 10 ^ 11 * 10 ^ 11) + 125) / (1 / 1000000))"
    using t0 q1 by (rule abs_mult_le)
  have e1: "js_mul (Num 0.5) (Num rho) = Num (0.5 * rho)"
    by (rule js_mul_Num [of _ 1 _ 2]) (simp_all add: rho_def)
  have e2: "js_mul (Num (0.5 * rho)) (Num CdA) = Num (0.5 * rho * CdA)"
    using c1 by (rule js_mul_Num [of _ _ _ 1]) (simp_all add: CdA_def)
  have e3: "js_mul (Num (0.5 * rho * CdA)) (Num v) = Num (0.5 * rho * CdA * v)"
    using c2 av by (rule js_mul_Num) simp
  have e4: "js_mul (Num (0.5 * rho * CdA * v)) (Num v) = Num ?a"
    using c3 av by (rule js_mul_Num) simp
  have e5: "js_add (Num gr) (Num ro) = Num (gr + ro)"
    using g r by (rule js_add_Num) simp
  have e6: "js_add (Num (gr + ro)) (Num ?a) = Num (gr + ro + ?a)"
    using s1 c4 by (rule js_add_Num) simp
  have e7: "js_mul (Num v) (Num (gr + ro + ?a)) = Num (v * (gr + ro + ?a))"
    using av s2 by (rule js_mul_Num) simp
  have e8: "js_sub (Num (v * (gr + ro + ?a))) (Num pw) = Num ?f"
    using s3 p by (rule js_sub_Num) simp
  have e9: "js_mul (Num 1.5) (Num ?a) = Num (1.5 * ?a)"
    using d0 c4 by (rule js_mul_Num) simp
  have e10: "js_add (Num (gr + ro)) (Num (1.5 * ?a)) = Num ?d"
    using s1 d1 by (rule js_add_Num) simp
  have e11: "js_max (Num (1 / 1000000)) (Num ?d) = Num ?m"
    by simp
  have e12: "js_div (Num ?f) (Num ?m) = Num (?f / ?m)"
    using s4 _ me by (rule js_div_Num) simp_all
  have e13: "js_mul (Num 0.6) (Num (?f / ?m)) = Num (0.6 * (?f / ?m))"
    using t0 q1 by (rule js_mul_Num) simp
  have e14: "js_sub (Num v) (Num (0.6 * (?f / ?m))) = Num (v - 0.6 * (?f / ?m))"
    using av t1 by (rule js_sub_Num) simp
  show ?thesis
    unfolding js_newtonStep_def js_aero_def Let_def e1 e2 e3 e4 e5 e6 e7 e8 e9 e10 e11 e12 e13 e14
    by simp
qed

lemma grav_abs: "\<bar>grav gp\<bar> \<le> 700"
proof -
  have "\<bar>grav gp\<bar> = 608.0123 * \<bar>sin (theta gp)\<bar>"
    by (simp add: grav_def abs_mult mass_def grav_g_def)
  also have "\<dots> \<le> 608.0123 * 1"
    by (intro mult_left_mono) simp_all
  finally show ?thesis by simp
qed

lemma roll_abs: "\<bar>roll gp\<bar> \<le> 3"
proof -
  have "\<bar>roll gp\<bar> = 2.4320492 * \<bar>cos (theta gp)\<bar>"
    by (simp add: roll_def abs_mult mass_def grav_g_def Crr_def)
  also have "\<dots> \<le> 2.4320492 * 1"
    by (intro mult_left_mono) simp_all
  finally show ?thesis by simp
qed

lemma power_P_abs: "\<bar>power_P\<bar> \<le> 125"
  by (simp add: power_P_def v_flat_value mass_def grav_g_def Crr_def rho_def CdA_def)

lemma js_newtonStep_refines:
  assumes "1 \<le> v" "v \<le> 10 ^ 11"
  shows "js_newtonStep (Num (grav gp)) (Num (roll gp)) (Num power_P) (Num v) = Num (newtonStep gp v)"
  using js_newtonStep_Num [OF assms grav_abs roll_abs power_P_abs, of gp gp]
  by (simp add: newtonStep_def f_bal_def df_bal_def aero_def)

lemma newtonStep_upper:
  assumes v: "1 \<le> v" "v \<le> 10 ^ 11"
  shows "newtonStep gp v \<le> 10 ^ 11"
proof -
  let ?F = "grav gp + roll gp"
  let ?m = "max (1 / 1000000) (df_bal gp v)"
  have F: "\<bar>?F\<bar> \<le> 703" using grav_abs [of gp] roll_abs [of gp] by linarith
  have m: "1 / 1000000 \<le> ?m" by simp
  have a0: "0 \<le> aero v" by (rule aero_nonneg)
  have "v - 0.6 * (f_bal gp v / ?m) \<le> 10 ^ 11"
  proof (cases "0 \<le> f_bal gp v")
    case True
    then have "0 \<le> f_bal gp v / ?m"
      by (intro divide_nonneg_pos) simp_all
    with v show ?thesis by simp
  next
    case False
    have v64: "v \<le> 64"
    proof (rule ccontr)
      assume "\<not> v \<le> 64"
      then have b: "64 < v" by simp
      then have "64 * 64 < v * v"
        by (intro mult_strict_mono) simp_all
      then have "752 < aero v"
        by (simp add: aero_def rho_def CdA_def)
      with F have "49 < ?F + aero v" by linarith
      with b have "64 * 49 < v * (?F + aero v)"
        by (intro mult_strict_mono) simp_all
      then have "0 \<le> f_bal gp v"
        using power_P_abs by (simp add: f_bal_def)
      with False show False by simp
    qed
    have "v * v \<le> 64 * 64"
      using v v64 by (intro mult_mono) simp_all
    then have a: "aero v \<le> 753"
      by (simp add: aero_def rho_def CdA_def)
    have "\<bar>?F + aero v\<bar> \<le> 703 + 753"
      using F a a0 by linarith
    moreover have "\<bar>v\<bar> \<le> 64" using v v64 by simp
    ultimately have "\<bar>v * (?F + aero v)\<bar> \<le> 64 * (703 + 753)"
      by (rule abs_mult_le [rotated])
    then have "\<bar>f_bal gp v\<bar> \<le> 64 * (703 + 753) + 125"
      using power_P_abs unfolding f_bal_def by linarith
    then have "\<bar>f_bal gp v / ?m\<bar> \<le> (64 * (703 + 753) + 125) / (1 / 1000000)"
      using _ m by (rule abs_div_le) simp
    then have "- (f_bal gp v / ?m) \<le> (64 * (703 + 753) + 125) / (1 / 1000000)"
      using abs_ge_minus_self [of "f_bal gp v / ?m"] by linarith
    with v64 show ?thesis by simp
  qed
  then show ?thesis
    by (simp add: newtonStep_def)
qed

lemma js_newtonLoop_refines:
  "1 \<le> v \<Longrightarrow> v \<le> 10 ^ 11 \<Longrightarrow>
   js_newtonLoop t (Num (grav gp)) (Num (roll gp)) (Num power_P) (Num v) = Num (newtonLoop t gp v)
   \<and> 1 \<le> newtonLoop t gp v \<and> newtonLoop t gp v \<le> 10 ^ 11"
proof (induction t arbitrary: v)
  case 0
  then show ?case by simp
next
  case (Suc t)
  have a: "1 \<le> newtonStep gp v" by (rule newtonStep_ge_1)
  have b: "newtonStep gp v \<le> 10 ^ 11" using Suc.prems by (rule newtonStep_upper)
  from Suc.IH [OF a b] show ?case
    by (simp add: js_newtonStep_refines [OF Suc.prems])
qed

lemma seed_v_bounds: "\<bar>gp\<bar> \<le> 30 \<Longrightarrow> 2 \<le> seed_v gp \<and> seed_v gp \<le> 18"
  by (auto simp: seed_v_def v_flat_value)

lemma js_seed_refines:
  assumes "\<bar>gp\<bar> \<le> 30"
  shows "js_max (Num 2)
           (js_add (Num v_flat)
              (if js_less (Num gp) (Num 0) then js_mul (js_abs (Num gp)) (Num 0.3)
               else js_mul (js_neg (Num gp)) (Num 0.25)))
         = Num (seed_v gp)"
proof -
  have g: "\<bar>\<bar>gp\<bar>\<bar> \<le> 30" "\<bar>- gp\<bar> \<le> 30" using assms by simp_all
  have k: "\<bar>0.3 :: real\<bar> \<le> 1" "\<bar>0.25 :: real\<bar> \<le> 1" by simp_all
  have m1: "js_mul (Num \<bar>gp\<bar>) (Num 0.3) = Num (\<bar>gp\<bar> * 0.3)"
    using g(1) k(1) by (rule js_mul_Num) simp
  have m2: "js_mul (Num (- gp)) (Num 0.25) = Num (- gp * 0.25)"
    using g(2) k(2) by (rule js_mul_Num) simp
  have b1: "\<bar>\<bar>gp\<bar> * 0.3\<bar> \<le> 30 * 1" using g(1) k(1) by (rule abs_mult_le)
  have b2: "\<bar>- gp * 0.25\<bar> \<le> 30 * 1" using g(2) k(2) by (rule abs_mult_le)
  have vf: "\<bar>v_flat\<bar> \<le> 9" by (simp add: v_flat_value)
  have a1: "js_add (Num v_flat) (Num (\<bar>gp\<bar> * 0.3)) = Num (v_flat + \<bar>gp\<bar> * 0.3)"
    using vf b1 by (rule js_add_Num) simp
  have a2: "js_add (Num v_flat) (Num (- gp * 0.25)) = Num (v_flat + - gp * 0.25)"
    using vf b2 by (rule js_add_Num) simp
  have l: "js_less (Num gp) (Num 0) = (gp < 0)" by simp
  show ?thesis
    unfolding l seed_v_def
    by (cases "gp < 0")
      (simp_all only: if_True if_False js_abs.simps js_neg.simps m1 m2 a1 a2 js_max.simps)
qed

lemma js_weight: "js_mul (Num mass) (Num grav_g) = Num (mass * grav_g)"
  by (rule js_mul_Num [of _ 62 _ 10]) (simp_all add: mass_def grav_g_def)

lemma js_grav: "js_mul (js_mul (Num mass) (Num grav_g)) (js_sin (js_atan (Num x)))
    = Num (mass * grav_g * sin (arctan x))"
proof -
  have a: "\<bar>mass * grav_g\<bar> \<le> 700" by (simp add: mass_def grav_g_def)
  have b: "\<bar>sin (arctan x)\<bar> \<le> 1" by simp
  have "js_mul (Num (mass * grav_g)) (Num (sin (arctan x))) = Num (mass * grav_g * sin (arctan x))"
    using a b by (rule js_mul_Num) simp
  then show ?thesis
    by (simp only: js_weight js_atan.simps js_sin.simps)
qed

lemma js_rollw: "js_mul (js_mul (Num mass) (Num grav_g)) (Num Crr) = Num (mass * grav_g * Crr)"
proof -
  have a: "\<bar>mass * grav_g\<bar> \<le> 700" by (simp add: mass_def grav_g_def)
  have b: "\<bar>Crr\<bar> \<le> 1" by (simp add: Crr_def)
  have "js_mul (Num (mass * grav_g)) (Num Crr) = Num (mass * grav_g * Crr)"
    using a b by (rule js_mul_Num) simp
  then show ?thesis
    by (simp only: js_weight)
qed

lemma js_roll: "js_mul (js_mul (js_mul (Num mass) (Num grav_g)) (Num Crr)) (js_cos (js_atan (Num x)))
    = Num (mass * grav_g * Crr * cos (arctan x))"
proof -
  have a: "\<bar>mass * grav_g * Crr\<bar> \<le> 3" by (simp add: mass_def grav_g_def Crr_def)
  have b: "\<bar>cos (arctan x)\<bar> \<le> 1" by simp
  have "js_mul (Num (mass * grav_g * Crr)) (Num (cos (arctan x)))
        = Num (mass * grav_g * Crr * cos (arctan x))"
    using a b by (rule js_mul_Num) simp
  then show ?thesis
    by (simp only: js_rollw js_atan.simps js_cos.simps)
qed

lemma js_v_flat: "js_mul (Num flat_mph) (Num 0.44704) = Num v_flat"
  unfolding v_flat_def by (rule js_mul_Num [of _ 20 _ 1]) (simp_all add: flat_mph_def)

lemma js_power_P:
  "js_mul (Num v_flat)
     (js_add (js_mul (js_mul (Num mass) (Num grav_g)) (Num Crr))
        (js_mul (js_mul (js_mul (js_mul (Num 0.5) (Num rho)) (Num CdA)) (Num v_flat)) (Num v_flat)))
   = Num power_P"
proof -
  have vf: "\<bar>v_flat\<bar> \<le> 9" by (simp add: v_flat_value)
  have c2: "\<bar>0.5 * rho * CdA\<bar> \<le> 1" by (simp add: rho_def CdA_def)
  have c3: "\<bar>0.5 * rho * CdA * v_flat\<bar> \<le> 1 * 9" using c2 vf by (rule abs_mult_le)
  have c4: "\<bar>0.5 * rho * CdA * v_flat * v_flat\<bar> \<le> 1 * 9 * 9" using c3 vf by (rule abs_mult_le)
  have w: "\<bar>mass * grav_g * Crr\<bar> \<le> 3" by (simp add: mass_def grav_g_def Crr_def)
  have s: "\<bar>mass * grav_g * Crr + 0.5 * rho * CdA * v_flat * v_flat\<bar> \<le> 3 + 1 * 9 * 9"
    using w c4 by (rule abs_add_le)
  have e1: "js_mul (Num 0.5) (Num rho) = Num (0.5 * rho)"
    by (rule js_mul_Num [of _ 1 _ 2]) (simp_all add: rho_def)
  have e2: "js_mul (Num (0.5 * rho)) (Num CdA) = Num (0.5 * rho * CdA)"
    by (rule js_mul_Num [of _ 1 _ 1]) (simp_all add: rho_def CdA_def)
  have e3: "js_mul (Num (0.5 * rho * CdA)) (Num v_flat) = Num (0.5 * rho * CdA * v_flat)"
    using c2 vf by (rule js_mul_Num) simp
  have e4: "js_mul (Num (0.5 * rho * CdA * v_flat)) (Num v_flat) = Num (0.5 * rho * CdA * v_flat * v_flat)"
    using c3 vf by (rule js_mul_Num) simp
  have e5: "js_add (Num (mass * grav_g * Crr)) (Num (0.5 * rho * CdA * v_flat * v_flat))
      = Num (mass * grav_g * Crr + 0.5 * rho * CdA * v_flat * v_flat)"
    using w c4 by (rule js_add_Num) simp
  have e6: "js_mul (Num v_flat) (Num (mass * grav_g * Crr + 0.5 * rho * CdA * v_flat * v_flat))
      = Num (v_flat * (mass * grav_g * Crr + 0.5 * rho * CdA * v_flat * v_flat))"
    using vf s by (rule js_mul_Num) simp
  show ?thesis
    by (simp only: js_rollw e1 e2 e3 e4 e5 e6 power_P_def)
qed

lemma js_tail:
  assumes v: "1 \<le> v" "v \<le> 10 ^ 11" and u: "0 \<le> u" "u < 1"
  shows "js_max (Num 5)
           (js_add (js_add (js_add (js_mul (Num v) (Num 2.23694)) (Num (dip i)))
                      (if js_less (Num gp) (Num (- 4)) \<and> i mod 95 = 0 then Num 7 else Num 0))
              (js_mul (js_sub (Num u) (Num 0.5)) (Num 0.6)))
         = Num (max 5 (v * 2.23694 + dip i + whoosh gp i + jitter u))"
proof -
  have av: "\<bar>v\<bar> \<le> 10 ^ 11" using v by simp
  have k: "\<bar>2.23694 :: real\<bar> \<le> 3" "\<bar>0.5 :: real\<bar> \<le> 1" "\<bar>0.6 :: real\<bar> \<le> 1" by simp_all
  have au: "\<bar>u\<bar> \<le> 1" using u by simp
  have d: "\<bar>dip i\<bar> \<le> 10" by (simp add: dip_def)
  have w: "\<bar>whoosh gp i\<bar> \<le> 7" by (simp add: whoosh_def)
  have wn: "(if js_less (Num gp) (Num (- 4)) \<and> i mod 95 = 0 then Num 7 else Num 0)
      = Num (whoosh gp i)"
    by (simp add: whoosh_def)
  have b1: "\<bar>v * 2.23694\<bar> \<le> 10 ^ 11 * 3" using av k(1) by (rule abs_mult_le)
  have b2: "\<bar>v * 2.23694 + dip i\<bar> \<le> 10 ^ 11 * 3 + 10" using b1 d by (rule abs_add_le)
  have b3: "\<bar>v * 2.23694 + dip i + whoosh gp i\<bar> \<le> 10 ^ 11 * 3 + 10 + 7"
    using b2 w by (rule abs_add_le)
  have b4: "\<bar>u - 0.5\<bar> \<le> 1 + 1" using au k(2) by (rule abs_diff_le)
  have b5: "\<bar>(u - 0.5) * 0.6\<bar> \<le> (1 + 1) * 1" using b4 k(3) by (rule abs_mult_le)
  have e1: "js_mul (Num v) (Num 2.23694) = Num (v * 2.23694)"
    using av k(1) by (rule js_mul_Num) simp
  have e2: "js_add (Num (v * 2.23694)) (Num (dip i)) = Num (v * 2.23694 + dip i)"
    using b1 d by (rule js_add_Num) simp
  have e3: "js_add (Num (v * 2.23694 + dip i)) (Num (whoosh gp i))
      = Num (v * 2.23694 + dip i + whoosh gp i)"
    using b2 w by (rule js_add_Num) simp
  have e4: "js_sub (Num u) (Num 0.5) = Num (u - 0.5)"
    using au k(2) by (rule js_sub_Num) simp
  have e5: "js_mul (Num (u - 0.5)) (Num 0.6) = Num ((u - 0.5) * 0.6)"
    using b4 k(3) by (rule js_mul_Num) simp
  have e6: "js_add (Num (v * 2.23694 + dip i + whoosh gp i)) (Num ((u - 0.5) * 0.6))
      = Num (v * 2.23694 + dip i + whoosh gp i + (u - 0.5) * 0.6)"
    using b3 b5 by (rule js_add_Num) simp
  show ?thesis
    by (simp only: wn e1 e2 e3 e4 e5 e6 js_max.simps jitter_def)
qed

lemma js_speedAt_refines:
  assumes gp: "- 30 \<le> gp" "gp \<le> 30" and u: "0 \<le> u" "u < 1"
  shows "js_speedAt (Num gp) i (Num u) = Num (speedAt gp i u)"
proof -
  have ag: "\<bar>gp\<bar> \<le> 30" using gp by simp
  have th: "js_div (Num gp) (Num 100) = Num (gp / 100)"
    using ag by (rule js_div_Num [of _ _ 100]) simp_all
  have gr: "js_mul (js_mul (Num mass) (Num grav_g)) (js_sin (js_atan (Num (gp / 100)))) = Num (grav gp)"
    by (simp only: js_grav grav_def theta_def)
  have ro: "js_mul (js_mul (js_mul (Num mass) (Num grav_g)) (Num Crr)) (js_cos (js_atan (Num (gp / 100))))
      = Num (roll gp)"
    by (simp only: js_roll roll_def theta_def)
  have sb: "1 \<le> seed_v gp" "seed_v gp \<le> 10 ^ 11"
    using seed_v_bounds [OF ag] by simp_all
  note lp = js_newtonLoop_refines [OF sb, of 6 gp]
  have lp1: "js_newtonLoop 6 (Num (grav gp)) (Num (roll gp)) (Num power_P) (Num (seed_v gp))
      = Num (solve_v gp)"
    using lp by (simp add: solve_v_def)
  have vb: "1 \<le> solve_v gp" "solve_v gp \<le> 10 ^ 11"
    using lp by (simp_all add: solve_v_def)
  show ?thesis
    unfolding js_speedAt_def Let_def th gr ro js_v_flat js_power_P js_seed_refines [OF ag] lp1
      js_tail [OF vb u] speedAt_def ..
qed

text \<open>
  Outside the range of grades the callback can return NaN: at a grade of \<open>- 10 ^ 200\<close>
  percent the square of the seed overflows, \<open>f\<close> and \<open>df\<close> are both infinite, their
  quotient is NaN, and NaN passes through both \<^verbatim>\<open>Math.max\<close>.
\<close>

lemma js_add_NaN [simp]: "js_add x NaN = NaN"
  by (cases x) simp_all

lemma js_mul_NaN [simp]: "js_mul x NaN = NaN"
  by (cases x) simp_all

lemma js_div_NaN [simp]: "js_div x NaN = NaN"
  by (cases x) simp_all

lemma js_max_NaN [simp]: "js_max x NaN = NaN"
  by (cases x) simp_all

lemma js_newtonStep_NaN: "js_newtonStep grav_n roll_n P NaN = NaN"
  by (simp add: js_newtonStep_def js_aero_def js_sub_def Let_def)

lemma js_newtonLoop_NaN: "js_newtonLoop t grav_n roll_n P NaN = NaN"
  by (induction t) (simp_all add: js_newtonStep_NaN)

lemma js_newtonStep_overflow:
  assumes "3 * 10 ^ 199 \<le> v" "v \<le> 4 * 10 ^ 199" "\<bar>gr\<bar> \<le> 700" "\<bar>ro\<bar> \<le> 3"
  shows "js_newtonStep (Num gr) (Num ro) (Num pw) (Num v) = NaN"
proof -
  have c: "0.5 * rho * CdA = (0.18375 :: real)" by (simp add: rho_def CdA_def)
  have e12: "js_mul (js_mul (Num 0.5) (Num rho)) (Num CdA) = Num 0.18375"
    by (simp add: rho_def CdA_def js_fin_Num)
  have "0.18375 * v \<le> 0.18375 * (4 * 10 ^ 199)" "0 \<le> 0.18375 * v"
    using assms(1,2) by simp_all
  then have "0.18375 * v < overflow_at" "- overflow_at < 0.18375 * v"
    by (simp_all add: overflow_at_def)
  then have e3: "js_mul (Num 0.18375) (Num v) = Num (0.18375 * v)"
    by (simp add: js_fin_def)
  have "0.18375 * (3 * 10 ^ 199) * (3 * 10 ^ 199) \<le> 0.18375 * v * v"
    using assms(1) by (intro mult_mono) simp_all
  then have "overflow_at \<le> 0.18375 * v * v"
    by (simp add: overflow_at_def)
  then have e4: "js_mul (Num (0.18375 * v)) (Num v) = PosInf"
    by (simp add: js_fin_def)
  have a: "js_aero (Num v) = PosInf"
    by (simp only: js_aero_def e12 e3 e4)
  have "\<bar>gr + ro\<bar> < 10 ^ 60"
    using assms(3,4) by simp
  then have e5: "js_fin (gr + ro) = Num (gr + ro)"
    by (rule js_fin_Num)
  have sv: "sgn v = 1" using assms(1) by simp
  show ?thesis
    by (simp add: js_newtonStep_def Let_def a e5 js_sub_def js_inf_def sv)
qed

lemma js_speedAt_overflow:
  "js_speedAt (Num (- (10 ^ 200))) i (Num u) = NaN"
proof -
  let ?gp = "- (10 ^ 200) :: real"
  have th: "js_div (Num ?gp) (Num 100) = Num (?gp / 100)"
    by (simp add: js_fin_def overflow_at_def)
  have gr: "js_mul (js_mul (Num mass) (Num grav_g)) (js_sin (js_atan (Num (?gp / 100)))) = Num (grav ?gp)"
    by (simp only: js_grav grav_def theta_def)
  have ro: "js_mul (js_mul (js_mul (Num mass) (Num grav_g)) (Num Crr)) (js_cos (js_atan (Num (?gp / 100))))
      = Num (roll ?gp)"
    by (simp only: js_roll roll_def theta_def)
  have sd: "js_max (Num 2)
           (js_add (Num v_flat)
              (if js_less (Num ?gp) (Num 0) then js_mul (js_abs (Num ?gp)) (Num 0.3)
               else js_mul (js_neg (Num ?gp)) (Num 0.25)))
         = Num (v_flat + 3 * 10 ^ 199)"
    by (simp add: js_fin_def overflow_at_def v_flat_value)
  have st: "js_newtonStep (Num (grav ?gp)) (Num (roll ?gp)) (Num power_P) (Num (v_flat + 3 * 10 ^ 199)) = NaN"
    by (rule js_newtonStep_overflow) (simp_all add: v_flat_value grav_abs roll_abs)
  have six: "js_newtonLoop 6 g r p v = js_newtonLoop 5 g r p (js_newtonStep g r p v)" for g r p v
    by (simp add: eval_nat_numeral)
  have lp: "js_newtonLoop 6 (Num (grav ?gp)) (Num (roll ?gp)) (Num power_P) (Num (v_flat + 3 * 10 ^ 199)) = NaN"
    by (simp only: six st js_newtonLoop_NaN)
  show ?thesis
    unfolding js_speedAt_def Let_def th gr ro js_v_flat js_power_P sd lp
    by simp
qed

subsection \<open>The store leaves the result unchanged\<close>

lemma rng_call_eq:
  "rng_call a s = (fst (mulberry32 (cells s a)), s\<lparr> cells := (cells s)(a := snd (mulberry32 (cells s a))) \<rparr>)"
  by (simp add: rng_call_def split_beta)

lemma draws_st_eq:
  "draws_st n a s = (fst (draws n (cells s a)), s\<lparr> cells := (cells s)(a := snd (draws n (cells s a))) \<rparr>)"
proof (induction n arbitrary: s)
  case 0
  then show ?case by simp
next
  case (Suc n)
  show ?case
    by (simp add: rng_call_eq Suc.IH split_beta Let_def cong: if_cong)
qed

lemma noiseSeries_st_eq:
  "noiseSeries_st n a sm s =
     (fst (noiseSeries n (cells s a) sm), s\<lparr> cells := (cells s)(a := snd (noiseSeries n (cells s a) sm)) \<rparr>)"
  by (simp add: noiseSeries_st_def noiseSeries_def draws_st_eq split_beta Let_def)

lemma speedMap_st_eq:
  "speedMap_st gs i a s =
     (fst (speedMap gs i (cells s a)), s\<lparr> cells := (cells s)(a := snd (speedMap gs i (cells s a))) \<rparr>)"
proof (induction gs arbitrary: i s)
  case Nil
  then show ?case by simp
next
  case (Cons gp gs)
  show ?case
    by (simp add: rng_call_eq Cons.IH split_beta Let_def cong: if_cong)
qed

lemma makeRoutePreview_st_fst:
  "fst (makeRoutePreview_st totalMiles seed s) = makeRoutePreview totalMiles seed"
  by (simp add: makeRoutePreview_st_def makeRoutePreview_def elevSeries_def mulberry32_new_def
      noiseSeries_st_eq speedMap_st_eq split_beta Let_def)

lemma makeRoutePreview_st_frame:
  "a < used s \<Longrightarrow> cells (snd (makeRoutePreview_st totalMiles seed s)) a = cells s a"
  by (simp add: makeRoutePreview_st_def mulberry32_new_def
      noiseSeries_st_eq speedMap_st_eq split_beta Let_def)

section \<open>Properties\<close>

subsection \<open>Grades\<close>

text \<open>
  C5. For every consecutive pair of samples \<open>(i - 1, i)\<close>, the raw grade written at
  index \<open>i\<close> is (elevation delta in feet / 5280 / distance delta in miles) times 100
  when the distance delta is positive, and 0 otherwise, in particular when it is zero.
\<close>

theorem rawGrade_formula:
  "1 \<le> i \<Longrightarrow> i < n \<Longrightarrow>
   rawGrade elev_ft ms n ! i =
     (if 0 < ms ! i - ms ! (i - 1)
      then ((elev_ft ! i - elev_ft ! (i - 1)) / 5280 / (ms ! i - ms ! (i - 1))) * 100
      else 0)"
  by (simp add: rawGrade_nth rawGradeAt_def Let_def)

theorem rawGrade_formula_witness:
  "(1::nat) \<le> 1 \<and> (1::nat) < 2 \<and> rawGrade [0, 264] [0, 1] 2 ! 1 = 5
   \<and> rawGrade [0, 264] [0, 0] 2 ! 1 = 0"
  using rawGrade_formula [of 1 2 "[0, 264]" "[0, 1]"]
    rawGrade_formula [of 1 2 "[0, 264]" "[0, 0]"]
  by simp

text \<open>
  C7. The smoothing uses a window of five samples centred on the sample (two on each
  side) and is applied to the interior samples \<open>2 .. n - 3\<close> only. The first two and
  the last two samples keep their raw grade: there is no truncated window and no padding.
  The first smoothed sample, at index 2, is the plain average of the raw grades
  \<open>0 .. 4\<close>.
\<close>

theorem smoothGrade_interior_window:
  "length (smoothGrade g (length g)) = length g
   \<and> (\<forall>k < length g. k < 2 \<or> length g - 2 \<le> k \<longrightarrow>
          smoothGrade g (length g) ! k = g ! k)
   \<and> (5 \<le> length g \<longrightarrow>
          smoothGrade g (length g) ! 2 = (g ! 0 + g ! 1 + g ! 2 + g ! 3 + g ! 4) / 5)"
proof (intro conjI allI impI)
  show "length (smoothGrade g (length g)) = length g"
    by (rule smoothGrade_length)
next
  fix k assume "k < length g" "k < 2 \<or> length g - 2 \<le> k"
  then show "smoothGrade g (length g) ! k = g ! k"
    unfolding smoothGrade_def by (intro smooth_fold_outside) simp
next
  assume n: "5 \<le> length g"
  let ?s = "foldl smoothAt g [2..<length g - 2]"
  have "(2::nat) \<le> 2" "2 < length g - 2" "length g - 2 + 2 \<le> length g"
    using n by linarith+
  then have "?s ! 2 = (?s ! (2 - 2) + ?s ! (2 - 1) + g ! 2 + g ! (2 + 1) + g ! (2 + 2)) / 5"
    by (rule smooth_fold_inside)
  moreover have "?s ! 0 = g ! 0" "?s ! 1 = g ! 1"
    by (simp_all add: smooth_fold_outside)
  ultimately show "smoothGrade g (length g) ! 2 = (g ! 0 + g ! 1 + g ! 2 + g ! 3 + g ! 4) / 5"
    by (simp add: smoothGrade_def eval_nat_numeral)
qed

theorem smoothGrade_interior_window_witness:
  "(1::nat) < length [0, 5, 0, 0, 0, 0 :: real] \<and> 5 \<le> length [0, 5, 0, 0, 0, 0 :: real]
   \<and> smoothGrade [0, 5, 0, 0, 0, 0] (length [0, 5, 0, 0, 0, 0 :: real]) ! 1 = 5
   \<and> smoothGrade [0, 5, 0, 0, 0, 0] (length [0, 5, 0, 0, 0, 0 :: real]) ! 2 = 1"
proof -
  let ?g = "[0, 5, 0, 0, 0, 0 :: real]"
  note r = smoothGrade_interior_window [of ?g]
  have b: "smoothGrade ?g (length ?g) ! 1 = ?g ! 1"
    using r by simp
  have i2: "smoothGrade ?g (length ?g) ! 2 = (?g ! 0 + ?g ! 1 + ?g ! 2 + ?g ! 3 + ?g ! 4) / 5"
    using r by simp
  from b i2 show ?thesis
    by (simp add: eval_nat_numeral)
qed

text \<open>
  The smoothed series is not the truncated moving average of the raw grades: on six
  samples with raw grades \<open>0, 5, 0, 0, 0, 0\<close> the boundary entries 0 and 1 keep their
  raw grade where the truncated windows would average to \<open>5 / 3\<close> and \<open>5 / 4\<close>.
  (The two also differ at index 3, where the loop reads the entry it has just overwritten
  at index 2.)
\<close>

theorem smoothGrade_not_movingAverage:
  "rawGrade [0, 264, 264, 264, 264, 264] [0, 1, 2, 3, 4, 5] 6 = [0, 5, 0, 0, 0, 0]
   \<and> smoothGrade [0, 5, 0, 0, 0, 0] 6 = [0, 5, 1, 6 / 5, 0, 0]
   \<and> movingAverage5 [0, 5, 0, 0, 0, 0] = [5 / 3, 5 / 4, 1, 1, 0, 0]
   \<and> smoothGrade [0, 5, 0, 0, 0, 0] 6 \<noteq> movingAverage5 [0, 5, 0, 0, 0, 0]"
  by (simp add: rawGrade_example smoothGrade_example movingAverage5_example)

text \<open>
  C8. The grade series has one entry for each sample, not one for each pair: its length
  is the length of the profile, before and after smoothing. Before smoothing, entry 0 is
  0 and entry \<open>i \<ge> 1\<close> is the raw grade of the pair \<open>(i - 1, i)\<close>. A profile of two
  samples gives the two entries 0 and the raw grade of its pair. For the preview the
  series has the 1600 entries of the distance series; its entry 0 is 0 and its entry 1
  is the raw grade of the first pair.
\<close>

theorem grade_one_per_sample:
  "length (rawGrade elev_ft ms n) = n
   \<and> length (smoothGrade (rawGrade elev_ft ms n) n) = n
   \<and> (\<forall>i < n. rawGrade elev_ft ms n ! i =
         (if i = 0 then 0
          else if 0 < ms ! i - ms ! (i - 1)
          then ((elev_ft ! i - elev_ft ! (i - 1)) / 5280 / (ms ! i - ms ! (i - 1))) * 100
          else 0))
   \<and> smoothGrade (rawGrade elev_ft ms 2) 2 =
         [0, if 0 < ms ! 1 - ms ! 0
             then ((elev_ft ! 1 - elev_ft ! 0) / 5280 / (ms ! 1 - ms ! 0)) * 100 else 0]
   \<and> length (grade (makeRoutePreview totalMiles seed)) = length (miles (makeRoutePreview totalMiles seed))
   \<and> grade (makeRoutePreview totalMiles seed) ! 0 = 0
   \<and> grade (makeRoutePreview totalMiles seed) ! 1 =
         (if 0 < milesSeries totalMiles ! 1 - milesSeries totalMiles ! 0
          then ((fst (elevSeries seed) ! 1 - fst (elevSeries seed) ! 0) / 5280
                / (milesSeries totalMiles ! 1 - milesSeries totalMiles ! 0)) * 100
          else 0)"
proof -
  have raw: "\<forall>i < n. rawGrade elev_ft ms n ! i =
         (if i = 0 then 0
          else if 0 < ms ! i - ms ! (i - 1)
          then ((elev_ft ! i - elev_ft ! (i - 1)) / 5280 / (ms ! i - ms ! (i - 1))) * 100
          else 0)"
    by (auto simp: rawGrade_nth rawGradeAt_def Let_def)
  have two: "smoothGrade (rawGrade elev_ft ms 2) 2 =
         [0, if 0 < ms ! 1 - ms ! 0
             then ((elev_ft ! 1 - elev_ft ! 0) / 5280 / (ms ! 1 - ms ! 0)) * 100 else 0]"
    by (simp add: smoothGrade_def rawGrade_def rawGradeAt_def Let_def upt_rec eval_nat_numeral)
  have one: "grade (makeRoutePreview totalMiles seed) ! 1 =
      rawGrade (fst (elevSeries seed)) (milesSeries totalMiles) pts ! 1"
    unfolding preview_grade smoothGrade_def by (intro smooth_fold_outside) simp
  have "grade (makeRoutePreview totalMiles seed) ! 1 =
         (if 0 < milesSeries totalMiles ! 1 - milesSeries totalMiles ! 0
          then ((fst (elevSeries seed) ! 1 - fst (elevSeries seed) ! 0) / 5280
                / (milesSeries totalMiles ! 1 - milesSeries totalMiles ! 0)) * 100
          else 0)"
    unfolding one by (simp add: rawGrade_nth rawGradeAt_def Let_def pts_def)
  with raw two show ?thesis
    by (simp add: smoothGrade_length rawGrade_length preview_grade_length preview_miles
        milesSeries_length preview_grade_0)
qed

theorem grade_one_per_sample_witness:
  "(1::nat) < 2 \<and> length (rawGrade [0, 264] [0, 1] 2) = 2
   \<and> rawGrade [0, 264] [0, 1] 2 ! 1 = 5
   \<and> smoothGrade (rawGrade [0, 264] [0, 1] 2) 2 = [0, 5]"
  using grade_one_per_sample [of "[0, 264]" "[0, 1]" 2]
  by simp

text \<open>
  For the preview of the landing page the length of the grade series is 1600, not the
  number of samples minus one.
\<close>

theorem grade_length_counterexample:
  "length (grade (makeRoutePreview 85 1337)) \<noteq> length (miles (makeRoutePreview 85 1337)) - 1"
  by (simp add: preview_grade_length preview_miles milesSeries_length pts_def)

subsection \<open>The chart series\<close>

text \<open>
  C10. For a non-negative total distance, the distance, speed, grade and elevation
  series of the preview all have the length of the profile, 1600, and the distances are
  in ascending order.
\<close>

theorem chart_series_parallel:
  "0 \<le> totalMiles \<Longrightarrow>
   length (miles (makeRoutePreview totalMiles seed)) = 1600
   \<and> length (speed (makeRoutePreview totalMiles seed)) = 1600
   \<and> length (grade (makeRoutePreview totalMiles seed)) = 1600
   \<and> length (fst (elevSeries seed)) = 1600
   \<and> sorted (miles (makeRoutePreview totalMiles seed))"
  by (simp add: preview_miles preview_speed speedMap_length preview_grade_length
      milesSeries_length elevSeries_length milesSeries_sorted pts_def)

theorem chart_series_parallel_witness:
  "(0::real) \<le> 85
   \<and> length (miles (makeRoutePreview 85 1337)) = 1600
   \<and> length (speed (makeRoutePreview 85 1337)) = 1600
   \<and> length (grade (makeRoutePreview 85 1337)) = 1600
   \<and> length (fst (elevSeries 1337)) = 1600
   \<and> sorted (miles (makeRoutePreview 85 1337))"
  using chart_series_parallel [of 85 1337] by simp

subsection \<open>The speed solver\<close>

text \<open>
  C2. For every grade between -30 and 30 percent, every sample index and every number
  that the generator can draw for the jitter (a number in \<open>[0, 1)\<close>), the callback on
  numbers with infinities and NaN returns a finite number, the one the callback on reals
  returns, and that number is at least the floor of 5 mph, hence positive: the speed is
  neither NaN nor infinite. Every number the generator draws lies in \<open>[0, 1)\<close>, whatever
  its captured variable holds.
\<close>

theorem speed_finite_floor:
  "- 30 \<le> gp \<Longrightarrow> gp \<le> 30 \<Longrightarrow> 0 \<le> u \<Longrightarrow> u < 1 \<Longrightarrow>
   js_speedAt (Num gp) i (Num u) = Num (speedAt gp i u)
   \<and> 5 \<le> speedAt gp i u \<and> 0 < speedAt gp i u
   \<and> 0 \<le> fst (mulberry32 r) \<and> fst (mulberry32 r) < 1"
  using mulberry32_range [of r] by (simp add: js_speedAt_refines speedAt_def)

theorem speed_finite_floor_witness:
  "(- 30 :: real) \<le> 30 \<and> (30 :: real) \<le> 30 \<and> (0 :: real) \<le> 1 / 2 \<and> (1 / 2 :: real) < 1
   \<and> js_speedAt (Num 30) 1 (Num (1 / 2)) = Num 5"
  using speed_finite_floor [of 30 "1 / 2" 1] by (simp add: speedAt_steep)

text \<open>
  C1. At zero grade the seed of the iteration is already the balanced speed, so the six
  steps leave it at \<open>v_flat\<close>, which is \<open>flat_mph\<close> within 0.001 mph once converted
  (the two conversion factors do not multiply to exactly 1). The speed of the sample is
  that value with the dip and the jitter added and the floor of 5 mph applied.
\<close>

theorem flat_calibration:
  "solve_v 0 = v_flat
   \<and> \<bar>solve_v 0 * 2.23694 - flat_mph\<bar> \<le> 1 / 1000
   \<and> speedAt 0 i u = max 5 (solve_v 0 * 2.23694 + dip i + jitter u)"
  by (simp add: solve_v_flat speedAt_def whoosh_def v_flat_value flat_mph_def)

text \<open>
  The speed returned for a flat sample is therefore not \<open>flat_mph\<close>: the first sample
  of the preview of the landing page has grade 0, a dip of 6 mph and a jitter of
  about 0.25 mph, and its speed is about 12.75 mph.
\<close>

theorem flat_calibration_counterexample:
  "grade (makeRoutePreview 85 1337) ! 0 = 0
   \<and> speed (makeRoutePreview 85 1337) ! 0 = 8355858962241991 / 655360000000000
   \<and> \<not> \<bar>speed (makeRoutePreview 85 1337) ! 0 - flat_mph\<bar> \<le> 1 / 1000"
  by (simp add: preview_grade_0 preview_speed_0 flat_mph_def)

text \<open>
  C3. For a fixed sample index and jitter draw, the seed of the iteration, the heuristic
  \<open>max 2 (v_flat + adjustment)\<close>, never increases with the grade and strictly decreases
  while it is above its floor of 2 m/s. The speed returned is not strictly decreasing:
  the iteration is clamped to 1 m/s at every step and the result to 5 mph, so every grade
  of 26 percent or more returns exactly 5 mph. (Between the floors the speed is not
  monotone either, see \<open>speedAt_inversion\<close>.)
\<close>

theorem grade_response:
  "g1 < g2 \<Longrightarrow> u \<le> 1 \<Longrightarrow>
   seed_v g2 \<le> seed_v g1
   \<and> (2 < seed_v g1 \<longrightarrow> seed_v g2 < seed_v g1)
   \<and> (26 \<le> g1 \<longrightarrow> speedAt g1 i u = 5 \<and> speedAt g2 i u = 5)"
  by (simp add: seed_v_antimono seed_v_strict speedAt_steep)

theorem grade_response_witness:
  "(26::real) < 30 \<and> (1 / 2 :: real) \<le> 1
   \<and> seed_v 30 \<le> seed_v 26 \<and> speedAt 26 1 (1 / 2) = 5 \<and> speedAt 30 1 (1 / 2) = 5
   \<and> seed_v 1 < seed_v 0"
proof -
  have "2 < seed_v 0"
    by (simp add: seed_v_def v_flat_value)
  then show ?thesis
    using grade_response [of 26 30 "1 / 2" 1] grade_response [of 0 1 "1 / 2" 1]
    by simp
qed

text \<open>
  At the grades 26 and 30 percent, with the same index and the same jitter draw, the
  steeper climb is not slower.
\<close>

theorem grade_response_counterexample:
  "\<not> speedAt 26 1 (1 / 2) > speedAt 30 1 (1 / 2)"
  by (simp add: speedAt_steep)

text \<open>
  C6. The slope \<open>df\<close> by which the iteration divides is not the derivative of \<open>f\<close>:
  the derivative of \<open>v * (grav + roll + aero v) - P\<close> is \<open>grav + roll + 3 * aero v\<close>,
  the code has \<open>grav + roll + 1.5 * aero v\<close>. At a grade of 1 percent the iteration
  starts at 8.02024 m/s, where the two differ by \<open>1.5 * aero v\<close>, which is not zero.
\<close>

theorem newton_df_not_derivative:
  "seed_v 1 = 8.02024
   \<and> (f_bal 1 has_real_derivative df_bal 1 (seed_v 1) + 1.5 * aero (seed_v 1)) (at (seed_v 1))
   \<and> \<not> (f_bal 1 has_real_derivative df_bal 1 (seed_v 1)) (at (seed_v 1))"
proof -
  have s: "seed_v 1 = 8.02024"
    by (simp add: seed_v_def v_flat_value)
  have d: "(f_bal 1 has_real_derivative df_bal 1 v + 1.5 * aero v) (at v)" for v
  proof -
    have "df_bal 1 v + 1.5 * aero v = grav 1 + roll 1 + 3 * aero v"
      by (simp add: df_bal_def)
    then show ?thesis
      using f_bal_deriv [of 1 v] by (simp only:)
  qed
  have "aero (seed_v 1) \<noteq> 0"
    by (simp add: s aero_def rho_def CdA_def)
  then have "df_bal 1 (seed_v 1) + 1.5 * aero (seed_v 1) \<noteq> df_bal 1 (seed_v 1)"
    by simp
  then have "\<not> (f_bal 1 has_real_derivative df_bal 1 (seed_v 1)) (at (seed_v 1))"
    using d [of "seed_v 1"] DERIV_unique by blast
  with s d show ?thesis by simp
qed

subsection \<open>Aggregation\<close>

text \<open>
  C4. The predicted time is the sum over the segments of segment distance / segment
  speed, and the predicted average is the total distance divided by that time: on two
  segments of one mile ridden at 10 and 20 mph it is 40 / 3 mph, not the arithmetic mean
  15 of the two speeds.
\<close>

theorem average_speed_identity:
  "pred_time_h (aggregate ds speeds) = (\<Sum>i < length ds - 1. (ds ! (i + 1) - ds ! i) / speeds ! i)
   \<and> pred_avg_mph (aggregate ds speeds)
       = distance_mi (aggregate ds speeds) / pred_time_h (aggregate ds speeds)
   \<and> pred_avg_mph (aggregate [0, 1, 2] [10, 20]) = 40 / 3"
proof -
  have "sum_list (segment_times ds speeds)
        = (\<Sum>i < length ds - 1. (ds ! (i + 1) - ds ! i) / speeds ! i)"
    unfolding segment_times_def segment_miles_def
    by (simp add: sum_list_sum_nth atLeast0LessThan)
  moreover have "pred_avg_mph (aggregate [0, 1, 2] [10, 20]) = 40 / 3"
    by (simp add: aggregate_def Let_def segment_times_def segment_miles_def upt_rec)
  ultimately show ?thesis
    by (simp add: aggregate_def Let_def)
qed

subsection \<open>Determinism\<close>

text \<open>
  C9. The preview does not depend on the store in which a run starts: two runs on the
  same total distance and seed give the same preview from any two stores, in particular
  a second run from the store the first one left. A run takes a new cell for its
  generator and leaves every cell that was in use before as it was. The preview of a
  run is the value of \<open>makeRoutePreview\<close>, where the captured variable is passed
  explicitly. The generator is modelled to the bit; the other numbers of the preview are
  reals, so the equality of two previews is exact equality in the model.
\<close>

theorem preview_deterministic:
  "fst (makeRoutePreview_st totalMiles seed s) = fst (makeRoutePreview_st totalMiles seed s')
   \<and> fst (makeRoutePreview_st totalMiles seed (snd (makeRoutePreview_st totalMiles seed s)))
       = fst (makeRoutePreview_st totalMiles seed s)
   \<and> (a < used s \<longrightarrow> cells (snd (makeRoutePreview_st totalMiles seed s)) a = cells s a)
   \<and> fst (makeRoutePreview_st totalMiles seed s) = makeRoutePreview totalMiles seed"
  by (simp add: makeRoutePreview_st_fst makeRoutePreview_st_frame)

theorem preview_deterministic_witness:
  "(0 :: nat) < used \<lparr> cells = (\<lambda>a. 7), used = 1 \<rparr>
   \<and> fst (makeRoutePreview_st 85 1337 \<lparr> cells = (\<lambda>a. 7), used = 1 \<rparr>)
       = fst (makeRoutePreview_st 85 1337 \<lparr> cells = (\<lambda>a. 0), used = 0 \<rparr>)
   \<and> cells (snd (makeRoutePreview_st 85 1337 \<lparr> cells = (\<lambda>a. 7), used = 1 \<rparr>)) 0 = 7"
  using preview_deterministic [of 85 1337 "\<lparr> cells = (\<lambda>a. 7), used = 1 \<rparr>"
      "\<lparr> cells = (\<lambda>a. 0), used = 0 \<rparr>" 0]
  by simp

end
